theory Spec2Isabelle
  imports Main "HOL-Library.Word"
begin

unbundle bit_operations_syntax

section \<open>Platform and machine types\<close>

text \<open>
  Euclid-O-Matic is an Arduino Nano sketch (ATmega328, avr-gcc): \<^verbatim>\<open>int\<close> and
  \<^verbatim>\<open>unsigned int\<close> are 16 bits wide, \<^verbatim>\<open>long\<close> and \<^verbatim>\<open>unsigned long\<close> 32 bits.
  The repository holds two variants of the sketch:
  \<^item> version 1.1, \<^verbatim>\<open>src/Euclid-O-Matic/Euclid-O-Matic.ino\<close> (channel mutes, tempo edit in
    every mode, pattern-length menu behind \<^verbatim>\<open>ALLOW_PATTERN_LENGTH_CHANGE\<close>); its
    definitions carry the suffix \<open>_v11\<close>;
  \<^item> version 1.0, the older sketch (a separate \<^verbatim>\<open>currentPatch\<close>, pattern-length menu
    always present); its definitions carry the suffix \<open>_v10\<close>.
  Definitions without a suffix embed code that is the same text in both sketches.

  Unsigned variables (\<^verbatim>\<open>channelPattern\<close>, \<^verbatim>\<open>memoryCellsInUse\<close>, \<^verbatim>\<open>delayTime\<close>) are
  words of their width, so that shifts drop bits and \<^verbatim>\<open>delayTime -= 1\<close> wraps.
  Variables of type \<^verbatim>\<open>int\<close> and \<^verbatim>\<open>long\<close> (pulse counts, pattern lengths, indices, modes,
  encoder positions) are modelled as \<open>int\<close>: the sketch only increments, decrements and
  compares them, and every theorem below bounds them far inside the 16-bit range.
  The patch numbers that subscript the bank are taken with \<open>nat\<close>; the theorems state the
  ranges they cover.
\<close>

type_synonym uint = "16 word"
type_synonym ulong = "32 word"

text \<open>
  A shift whose count is negative or not below the width of the (promoted) left operand
  is undefined behaviour in C++. The model makes it a value: every shift of the sketch
  with a computed count goes through \<open>shiftCount\<close>.
\<close>

datatype error = UndefinedShift | IndexOutOfRange

definition shiftCount :: "int \<Rightarrow> error + nat" where
  "shiftCount n = (if 0 \<le> n \<and> n < 16 then Inr (nat n) else Inl UndefinedShift)"

text \<open>
  A subscript outside the bounds of an array is undefined behaviour too. The arrays of a
  patch have four entries, and the \<^verbatim>\<open>switch\<close> of \<^verbatim>\<open>loop\<close> subscripts them with
  \<^verbatim>\<open>selectedTriggerChannel\<close>, an \<^verbatim>\<open>int\<close> whose initial value is \<open>- 1\<close> and which
  \<^verbatim>\<open>setup\<close> reads from the EEPROM: every such subscript goes through \<open>channelIndex\<close>.
\<close>

definition channelIndex :: "int \<Rightarrow> error + nat" where
  "channelIndex c = (if 0 \<le> c \<and> c < 4 then Inr (nat c) else Inl IndexOutOfRange)"

definition bindE :: "error + 'a \<Rightarrow> ('a \<Rightarrow> error + 'b) \<Rightarrow> error + 'b" where
  "bindE m f = (case m of Inl e \<Rightarrow> Inl e | Inr x \<Rightarrow> f x)"

subsection \<open>Constants of the sketch\<close>

definition PATTERN_LENGTH_MODE :: int where "PATTERN_LENGTH_MODE = 1"
definition NUM_PULSE_MODE :: int where "NUM_PULSE_MODE = 2"
definition ROTATE_MODE :: int where "ROTATE_MODE = 3"
definition PROGRAM_MODE :: int where "PROGRAM_MODE = 4"
definition MAX_MODE :: int where "MAX_MODE = 3"
definition DEFAULT_PATTERN_LENGTH :: int where "DEFAULT_PATTERN_LENGTH = 16"
definition HALF_DAC_RANGE :: int where "HALF_DAC_RANGE = 500"
definition NUM_NEOP_LEDS :: int where "NUM_NEOP_LEDS = 16"
definition MAX_DELAY_TIME :: uint where "MAX_DELAY_TIME = 500"
definition NR_OF_MEMORY_CELLS :: int where "NR_OF_MEMORY_CELLS = NUM_NEOP_LEDS"
definition TRIG_A :: int where "TRIG_A = 3"
definition TRIG_B :: int where "TRIG_B = 2"
definition TRIG_C :: int where "TRIG_C = 1"
definition TRIG_D :: int where "TRIG_D = 0"

lemmas sketch_consts =
  PATTERN_LENGTH_MODE_def NUM_PULSE_MODE_def ROTATE_MODE_def PROGRAM_MODE_def MAX_MODE_def
  DEFAULT_PATTERN_LENGTH_def HALF_DAC_RANGE_def NUM_NEOP_LEDS_def MAX_DELAY_TIME_def
  NR_OF_MEMORY_CELLS_def TRIG_A_def TRIG_B_def TRIG_C_def TRIG_D_def

section \<open>Data model\<close>

text \<open>
  \<^verbatim>\<open>struct Patch\<close>: three arrays of four entries, one per trigger channel. Version 1.1
  adds the four mute flags.
\<close>

record Patch =
  pulses :: "int list"
  patternLength :: "int list"
  channelPattern :: "uint list"

record MutePatch = Patch +
  muteA :: bool
  muteB :: bool
  muteC :: bool
  muteD :: bool

section \<open>The pattern generator\<close>

text \<open>
  \<^verbatim>\<open>euclid(Patch thisPatch, int channelNumber)\<close>, the same text in both sketches. The
  \<^verbatim>\<open>for\<close> loop is \<open>euclid_loop\<close>, with the loop variables \<^verbatim>\<open>i\<close>, \<^verbatim>\<open>bucket\<close> and
  \<^verbatim>\<open>number\<close> as arguments; \<^verbatim>\<open>number |= 1 << i\<close> shifts by the loop index.
\<close>

function euclid_loop :: "int \<Rightarrow> int \<Rightarrow> int \<Rightarrow> int \<Rightarrow> uint \<Rightarrow> error + uint" where
  "euclid_loop p len i bucket number =
     (if i < len then
        (if bucket + p \<ge> len then
           (case shiftCount i of
              Inl e \<Rightarrow> Inl e
            | Inr k \<Rightarrow> euclid_loop p len (i + 1) (bucket + p - len) (number OR push_bit k 1))
         else euclid_loop p len (i + 1) (bucket + p) number)
      else Inr number)"
  by pat_completeness auto
termination
  by (relation "measure (\<lambda>(p, len, i, bucket, number). nat (len - i))") auto

declare euclid_loop.simps [simp del]

definition euclid :: "'a Patch_scheme \<Rightarrow> nat \<Rightarrow> error + uint" where
  "euclid thisPatch channelNumber =
     euclid_loop (pulses thisPatch ! channelNumber) (patternLength thisPatch ! channelNumber)
       0 0 0"

section \<open>The pattern rotator\<close>

text \<open>
  The bodies of \<^verbatim>\<open>rotateLeft\<close> and \<^verbatim>\<open>rotateRight\<close>, the same expressions in both
  sketches. Their second argument is the value the body reads as
  \<^verbatim>\<open>patternLength[channelNumber]\<close>: of \<^verbatim>\<open>patches[chosenPatchNumber]\<close> in version 1.1,
  of the patch passed by reference in version 1.0. Neither body tests the length before
  it shifts by \<^verbatim>\<open>patternLength[channelNumber] - 1\<close>.
\<close>

definition rotateLeft :: "uint \<Rightarrow> int \<Rightarrow> error + uint" where
  "rotateLeft pattern len =
     (case shiftCount (len - 1) of
        Inl e \<Rightarrow> Inl e
      | Inr k \<Rightarrow>
          (let DROPPED_MSB = drop_bit k pattern AND 1
           in Inr (push_bit 1 pattern OR DROPPED_MSB)))"

definition rotateRight :: "uint \<Rightarrow> int \<Rightarrow> error + uint" where
  "rotateRight pattern len =
     (case shiftCount (len - 1) of
        Inl e \<Rightarrow> Inl e
      | Inr k \<Rightarrow>
          (let DROPPED_LSB = pattern AND 1;
               pattern1 = drop_bit 1 pattern AND NOT (push_bit k 1)
           in Inr (pattern1 OR push_bit k DROPPED_LSB)))"

section \<open>Patches: the empty patch and copying\<close>

text \<open>
  \<^verbatim>\<open>createEmptyPatch\<close> writes the four entries of each array. Version 1.0 sets the
  pattern lengths to 0; version 1.1 sets them to \<^verbatim>\<open>DEFAULT_PATTERN_LENGTH\<close> and clears
  the mute flags.
\<close>

definition createEmptyPatch_v10 :: "Patch \<Rightarrow> Patch" where
  "createEmptyPatch_v10 dstPatch =
     fold (\<lambda>i d. d\<lparr>pulses := (pulses d)[i := 0],
                   patternLength := (patternLength d)[i := 0],
                   channelPattern := (channelPattern d)[i := 0]\<rparr>) [0..<4] dstPatch"

definition createEmptyPatch_v11 :: "MutePatch \<Rightarrow> MutePatch" where
  "createEmptyPatch_v11 dstPatch =
     (fold (\<lambda>i d. d\<lparr>pulses := (pulses d)[i := 0],
                    patternLength := (patternLength d)[i := DEFAULT_PATTERN_LENGTH],
                    channelPattern := (channelPattern d)[i := 0]\<rparr>) [0..<4] dstPatch)
       \<lparr>muteA := False, muteB := False, muteC := False, muteD := False\<rparr>"

text \<open>
  \<^verbatim>\<open>copyPatch(Patch srcPatch, Patch &dstPatch)\<close> of version 1.0 and
  \<^verbatim>\<open>copyPatch(Patch patches[], int sourcePatchNumber, int destinationPatchNumber)\<close> of
  version 1.1, which copies inside the bank and copies the mute flags too.
\<close>

definition copyPatch_v10 :: "Patch \<Rightarrow> Patch \<Rightarrow> Patch" where
  "copyPatch_v10 srcPatch dstPatch =
     fold (\<lambda>i d. d\<lparr>pulses := (pulses d)[i := pulses srcPatch ! i],
                   patternLength := (patternLength d)[i := patternLength srcPatch ! i],
                   channelPattern := (channelPattern d)[i := channelPattern srcPatch ! i]\<rparr>)
       [0..<4] dstPatch"

definition copyPatch_v11 :: "MutePatch list \<Rightarrow> int \<Rightarrow> int \<Rightarrow> MutePatch list" where
  "copyPatch_v11 ps sourcePatchNumber destinationPatchNumber =
     (let src = ps ! nat sourcePatchNumber;
          dst = fold (\<lambda>i d. d\<lparr>pulses := (pulses d)[i := pulses src ! i],
                              patternLength := (patternLength d)[i := patternLength src ! i],
                              channelPattern := (channelPattern d)[i := channelPattern src ! i]\<rparr>)
                  [0..<4] (ps ! nat destinationPatchNumber)
      in ps[nat destinationPatchNumber :=
              dst\<lparr>muteA := muteA src, muteB := muteB src, muteC := muteC src, muteD := muteD src\<rparr>])"

text \<open>
  The global patch objects have static storage, so they start as all-zero arrays of
  four entries; \<^verbatim>\<open>setup\<close> then calls \<^verbatim>\<open>createEmptyPatch(emptyPatch)\<close>.
\<close>

definition zeroPatch :: Patch where
  "zeroPatch = \<lparr>pulses = [0, 0, 0, 0], patternLength = [0, 0, 0, 0],
                 channelPattern = [0, 0, 0, 0]\<rparr>"

definition zeroMutePatch :: MutePatch where
  "zeroMutePatch = \<lparr>pulses = [0, 0, 0, 0], patternLength = [0, 0, 0, 0],
                     channelPattern = [0, 0, 0, 0],
                     muteA = False, muteB = False, muteC = False, muteD = False\<rparr>"

section \<open>Edits of one channel of a patch\<close>

text \<open>
  The statement sequences of \<^verbatim>\<open>loop\<close> that edit channel \<open>c\<close> of the live patch. They
  are the same text in both sketches up to the object they name (\<^verbatim>\<open>currentPatch\<close> in
  version 1.0, \<^verbatim>\<open>patches[chosenPatchNumber]\<close> in version 1.1): change the count, clamp
  it, and store the pattern that \<open>euclid\<close> computes for the changed patch.
\<close>

definition storePattern :: "'a Patch_scheme \<Rightarrow> nat \<Rightarrow> error + uint \<Rightarrow> error + 'a Patch_scheme" where
  "storePattern P c r =
     (case r of Inl e \<Rightarrow> Inl e
      | Inr w \<Rightarrow> Inr (P\<lparr>channelPattern := (channelPattern P)[c := w]\<rparr>))"

definition increaseLength :: "'a Patch_scheme \<Rightarrow> nat \<Rightarrow> error + 'a Patch_scheme" where
  "increaseLength P c =
     (let l = patternLength P ! c + 1;
          l = (if l > NUM_NEOP_LEDS then NUM_NEOP_LEDS else l);
          P1 = P\<lparr>patternLength := (patternLength P)[c := l]\<rparr>
      in storePattern P1 c (euclid P1 c))"

definition decreaseLength :: "'a Patch_scheme \<Rightarrow> nat \<Rightarrow> error + 'a Patch_scheme" where
  "decreaseLength P c =
     (let l = patternLength P ! c - 1;
          l = (if l < 0 then 0 else l);
          P1 = P\<lparr>patternLength := (patternLength P)[c := l]\<rparr>
      in storePattern P1 c (euclid P1 c))"

definition increasePulses :: "'a Patch_scheme \<Rightarrow> nat \<Rightarrow> error + 'a Patch_scheme" where
  "increasePulses P c =
     (let n = pulses P ! c + 1;
          n = (if n > patternLength P ! c then patternLength P ! c else n);
          P1 = P\<lparr>pulses := (pulses P)[c := n]\<rparr>
      in storePattern P1 c (euclid P1 c))"

definition decreasePulses :: "'a Patch_scheme \<Rightarrow> nat \<Rightarrow> error + 'a Patch_scheme" where
  "decreasePulses P c =
     (let n = pulses P ! c - 1;
          n = (if n < 0 then 0 else n);
          P1 = P\<lparr>pulses := (pulses P)[c := n]\<rparr>
      in storePattern P1 c (euclid P1 c))"

text \<open>
  \<^verbatim>\<open>rotateLeft(currentPatch, c)\<close> of version 1.0 and
  \<^verbatim>\<open>rotateLeft(patches[chosenPatchNumber].channelPattern[c], c)\<close> of version 1.1: the
  pattern of channel \<open>c\<close> is rotated within that channel's pattern length.
\<close>

definition rotateLeftChannel :: "'a Patch_scheme \<Rightarrow> nat \<Rightarrow> error + 'a Patch_scheme" where
  "rotateLeftChannel P c =
     storePattern P c (rotateLeft (channelPattern P ! c) (patternLength P ! c))"

definition rotateRightChannel :: "'a Patch_scheme \<Rightarrow> nat \<Rightarrow> error + 'a Patch_scheme" where
  "rotateRightChannel P c =
     storePattern P c (rotateRight (channelPattern P ! c) (patternLength P ! c))"

section \<open>The sequencer state and one pass of \<^verbatim>\<open>loop\<close>\<close>

text \<open>
  The globals and the \<^verbatim>\<open>static\<close> locals of \<^verbatim>\<open>loop\<close> that survive a pass. Version 1.0
  plays and edits \<^verbatim>\<open>currentPatch\<close>; version 1.1 plays and edits
  \<^verbatim>\<open>patches[chosenPatchNumber]\<close> in place and has the mute-button cooldown flag.
  Writes to the EEPROM and to the output pins and LEDs do not change these variables
  and are left out.
\<close>

record 'p seq =
  step :: "int list"
  patches :: "'p list"
  emptyPatch :: 'p
  delayTime :: uint
  memoryCellsInUse :: uint
  chosenPatchNumber :: int
  candidatePatchNumber :: int
  selectedTriggerChannel :: int
  mode :: int
  mode1Pos :: int
  prevExtClk :: int
  prevTime :: ulong
  oldPosition :: int
  prog :: bool
  prevF1 :: int
  prevF2 :: int
  prevF3 :: int
  prevF4 :: int
  prevResetPinIn :: int
  prevProgramButtonValue :: int

record seq_v10 = "Patch seq" +
  currentPatch :: Patch

record seq_v11 = "MutePatch seq" +
  allowMuteButtons :: bool

text \<open>
  What one pass reads from the hardware. \<open>pressedButton\<close> is the trigger button that
  the voltage ranges of \<^verbatim>\<open>checkButtons\<close> decode from the analog reading (the ranges are
  floating-point comparisons and belong to the input decoder); \<open>muteDelayFinished\<close> is
  the answer of \<^verbatim>\<open>muteButtonDelay.justFinished()\<close>.
\<close>

record inputs =
  newPosition :: int
  extClkV :: int
  f1In :: int
  f2In :: int
  f3In :: int
  f4In :: int
  resetPinIn :: int
  escapeButton :: int
  progPin :: bool
  thisTime :: ulong
  clkPin :: bool
  pressedButton :: "int option"
  muteDelayFinished :: bool

definition resetSteps :: "int list \<Rightarrow> int list" where
  "resetSteps st = fold (\<lambda>triggerChannel l. l[triggerChannel := 0]) [0..<4] st"

subsection \<open>The tempo edit\<close>

text \<open>
  The block guarded by \<^verbatim>\<open>if (escapeButton)\<close>: in \<^verbatim>\<open>PATTERN_LENGTH_MODE\<close> of both
  sketches, and repeated verbatim in \<^verbatim>\<open>NUM_PULSE_MODE\<close> and \<^verbatim>\<open>ROTATE_MODE\<close> of
  version 1.1. \<^verbatim>\<open>delayTime\<close> is an \<^verbatim>\<open>unsigned int\<close>.
\<close>

definition tempoEdit :: "int \<Rightarrow> ('p, 'z) seq_scheme \<Rightarrow> ('p, 'z) seq_scheme" where
  "tempoEdit newPos s =
     (if newPos < oldPosition s - 3 then
        (let d = delayTime s - 1;
             d = (if d < 10 then 10 else d)
         in s\<lparr>delayTime := d, oldPosition := newPos\<rparr>)
      else if newPos > oldPosition s + 3 then
        (let d = delayTime s + 1;
             d = (if d > MAX_DELAY_TIME then MAX_DELAY_TIME else d)
         in s\<lparr>delayTime := d, oldPosition := newPos\<rparr>)
      else s)"

subsection \<open>The candidate patch number in program mode\<close>

definition moveCandidate :: "int \<Rightarrow> ('p, 'z) seq_scheme \<Rightarrow> ('p, 'z) seq_scheme" where
  "moveCandidate newPos s =
     (if newPos > oldPosition s + 3 then
        (let n = candidatePatchNumber s - 1;
             n = (if n < 0 then NR_OF_MEMORY_CELLS - 1 else n)
         in s\<lparr>oldPosition := newPos, candidatePatchNumber := n\<rparr>)
      else if newPos < oldPosition s - 3 then
        (let n = candidatePatchNumber s + 1;
             n = (if n > NR_OF_MEMORY_CELLS - 1 then 0 else n)
         in s\<lparr>oldPosition := newPos, candidatePatchNumber := n\<rparr>)
      else s)"

subsection \<open>\<^verbatim>\<open>switch (mode)\<close>, version 1.0\<close>

definition live_v10 ::
  "int \<Rightarrow> seq_v10 \<Rightarrow> error + Patch \<Rightarrow> error + seq_v10" where
  "live_v10 newPos s r =
     (case r of Inl e \<Rightarrow> Inl e
      | Inr P \<Rightarrow> Inr (s\<lparr>currentPatch := P, oldPosition := newPos\<rparr>))"

definition restart_v10 :: "error + seq_v10 \<Rightarrow> error + seq_v10" where
  "restart_v10 r = map_sum id (\<lambda>s. s\<lparr>step := resetSteps (step s)\<rparr>) r"

definition patternLengthMode_v10 :: "inputs \<Rightarrow> seq_v10 \<Rightarrow> error + seq_v10" where
  "patternLengthMode_v10 inp s =
     (if escapeButton inp \<noteq> 0 then Inr (tempoEdit (newPosition inp) s)
      else if newPosition inp < oldPosition s - 3 then
        bindE (channelIndex (selectedTriggerChannel s)) (\<lambda>c.
          restart_v10 (live_v10 (newPosition inp) s (increaseLength (currentPatch s) c)))
      else if newPosition inp > oldPosition s + 3 then
        bindE (channelIndex (selectedTriggerChannel s)) (\<lambda>c.
          restart_v10 (live_v10 (newPosition inp) s (decreaseLength (currentPatch s) c)))
      else Inr s)"

definition numPulseMode_v10 :: "inputs \<Rightarrow> seq_v10 \<Rightarrow> error + seq_v10" where
  "numPulseMode_v10 inp s =
     (if newPosition inp < oldPosition s - 3 then
        bindE (channelIndex (selectedTriggerChannel s)) (\<lambda>c.
          restart_v10 (live_v10 (newPosition inp) s (increasePulses (currentPatch s) c)))
      else if newPosition inp > oldPosition s + 3 then
        bindE (channelIndex (selectedTriggerChannel s)) (\<lambda>c.
          restart_v10 (live_v10 (newPosition inp) s (decreasePulses (currentPatch s) c)))
      else Inr s)"

definition rotateMode_v10 :: "inputs \<Rightarrow> seq_v10 \<Rightarrow> error + seq_v10" where
  "rotateMode_v10 inp s =
     (if newPosition inp > oldPosition s + 3 then
        bindE (channelIndex (selectedTriggerChannel s)) (\<lambda>c.
          live_v10 (newPosition inp) s (rotateRightChannel (currentPatch s) c))
      else if newPosition inp < oldPosition s - 3 then
        bindE (channelIndex (selectedTriggerChannel s)) (\<lambda>c.
          live_v10 (newPosition inp) s (rotateLeftChannel (currentPatch s) c))
      else Inr s)"

text \<open>
  The three program buttons of version 1.0: A recalls the candidate cell into
  \<^verbatim>\<open>currentPatch\<close>, B clears the candidate cell, D stores \<^verbatim>\<open>currentPatch\<close> in it.
\<close>

definition recall_v10 :: "seq_v10 \<Rightarrow> seq_v10" where
  "recall_v10 s =
     (let chosen = candidatePatchNumber s
      in s\<lparr>prevProgramButtonValue := 1,
            chosenPatchNumber := chosen,
            currentPatch := copyPatch_v10 (patches s ! nat chosen) (currentPatch s),
            step := resetSteps (step s)\<rparr>)"

definition clear_v10 :: "seq_v10 \<Rightarrow> error + seq_v10" where
  "clear_v10 s =
     (case shiftCount (candidatePatchNumber s) of
        Inl e \<Rightarrow> Inl e
      | Inr k \<Rightarrow>
          Inr (s\<lparr>prevProgramButtonValue := 1,
                  memoryCellsInUse := memoryCellsInUse s AND NOT (push_bit k 1),
                  patches := (patches s)[nat (candidatePatchNumber s) :=
                     copyPatch_v10 (emptyPatch s) (patches s ! nat (candidatePatchNumber s))]\<rparr>))"

definition store_v10 :: "seq_v10 \<Rightarrow> error + seq_v10" where
  "store_v10 s =
     (case shiftCount (candidatePatchNumber s) of
        Inl e \<Rightarrow> Inl e
      | Inr k \<Rightarrow>
          Inr (s\<lparr>prevProgramButtonValue := 1,
                  memoryCellsInUse := memoryCellsInUse s OR push_bit k 1,
                  patches := (patches s)[nat (candidatePatchNumber s) :=
                     copyPatch_v10 (currentPatch s) (patches s ! nat (candidatePatchNumber s))]\<rparr>))"

definition programMode_v10 :: "inputs \<Rightarrow> int \<Rightarrow> seq_v10 \<Rightarrow> error + seq_v10" where
  "programMode_v10 inp programButtonName s =
     (let s1 = moveCandidate (newPosition inp) s
      in if programButtonName = TRIG_A then
           (if prevProgramButtonValue s1 = 0 then Inr (recall_v10 s1) else Inr s1)
         else if programButtonName = TRIG_B then
           (if prevProgramButtonValue s1 = 0 then clear_v10 s1 else Inr s1)
         else if programButtonName = TRIG_D then
           (if prevProgramButtonValue s1 = 0 then store_v10 s1 else Inr s1)
         else Inr s1)"

definition modeSwitch_v10 :: "inputs \<Rightarrow> int \<Rightarrow> seq_v10 \<Rightarrow> error + seq_v10" where
  "modeSwitch_v10 inp programButtonName s =
     (if mode s = PATTERN_LENGTH_MODE then patternLengthMode_v10 inp s
      else if mode s = NUM_PULSE_MODE then numPulseMode_v10 inp s
      else if mode s = ROTATE_MODE then rotateMode_v10 inp s
      else if mode s = PROGRAM_MODE then programMode_v10 inp programButtonName s
      else Inr s)"

subsection \<open>\<^verbatim>\<open>switch (mode)\<close>, version 1.1\<close>

definition live_v11 ::
  "int \<Rightarrow> seq_v11 \<Rightarrow> error + MutePatch \<Rightarrow> error + seq_v11" where
  "live_v11 newPos s r =
     (case r of Inl e \<Rightarrow> Inl e
      | Inr P \<Rightarrow> Inr (s\<lparr>patches := (patches s)[nat (chosenPatchNumber s) := P],
                          oldPosition := newPos\<rparr>))"

definition livePatch_v11 :: "seq_v11 \<Rightarrow> MutePatch" where
  "livePatch_v11 s = patches s ! nat (chosenPatchNumber s)"

definition patternLengthMode_v11 :: "inputs \<Rightarrow> seq_v11 \<Rightarrow> error + seq_v11" where
  "patternLengthMode_v11 inp s =
     (if escapeButton inp \<noteq> 0 then Inr (tempoEdit (newPosition inp) s)
      else if newPosition inp < oldPosition s - 3 then
        bindE (channelIndex (selectedTriggerChannel s)) (\<lambda>c.
          live_v11 (newPosition inp) s (increaseLength (livePatch_v11 s) c))
      else if newPosition inp > oldPosition s + 3 then
        bindE (channelIndex (selectedTriggerChannel s)) (\<lambda>c.
          live_v11 (newPosition inp) s (decreaseLength (livePatch_v11 s) c))
      else Inr s)"

definition numPulseMode_v11 :: "inputs \<Rightarrow> seq_v11 \<Rightarrow> error + seq_v11" where
  "numPulseMode_v11 inp s =
     (if escapeButton inp \<noteq> 0 then Inr (tempoEdit (newPosition inp) s)
      else if newPosition inp < oldPosition s - 3 then
        bindE (channelIndex (selectedTriggerChannel s)) (\<lambda>c.
          live_v11 (newPosition inp) s (increasePulses (livePatch_v11 s) c))
      else if newPosition inp > oldPosition s + 3 then
        bindE (channelIndex (selectedTriggerChannel s)) (\<lambda>c.
          live_v11 (newPosition inp) s (decreasePulses (livePatch_v11 s) c))
      else Inr s)"

definition rotateMode_v11 :: "inputs \<Rightarrow> seq_v11 \<Rightarrow> error + seq_v11" where
  "rotateMode_v11 inp s =
     (if escapeButton inp \<noteq> 0 then Inr (tempoEdit (newPosition inp) s)
      else if newPosition inp > oldPosition s + 3 then
        bindE (channelIndex (selectedTriggerChannel s)) (\<lambda>c.
          live_v11 (newPosition inp) s (rotateRightChannel (livePatch_v11 s) c))
      else if newPosition inp < oldPosition s - 3 then
        bindE (channelIndex (selectedTriggerChannel s)) (\<lambda>c.
          live_v11 (newPosition inp) s (rotateLeftChannel (livePatch_v11 s) c))
      else Inr s)"

text \<open>
  The program buttons of version 1.1: A makes the candidate cell the chosen (live) one,
  overwriting it with an empty patch when the cell is not in use; B marks the candidate
  cell unused (the empty patch goes to the EEPROM only); D copies the chosen patch to
  the candidate cell. C does nothing.
\<close>

definition recall_v11 :: "seq_v11 \<Rightarrow> error + seq_v11" where
  "recall_v11 s =
     (let chosen = candidatePatchNumber s
      in case shiftCount chosen of
           Inl e \<Rightarrow> Inl e
         | Inr k \<Rightarrow>
             Inr (s\<lparr>prevProgramButtonValue := 1,
                     chosenPatchNumber := chosen,
                     patches :=
                       (if memoryCellsInUse s AND push_bit k 1 = 0
                        then (patches s)[nat chosen := createEmptyPatch_v11 (patches s ! nat chosen)]
                        else patches s),
                     step := resetSteps (step s)\<rparr>))"

definition clear_v11 :: "seq_v11 \<Rightarrow> error + seq_v11" where
  "clear_v11 s =
     (case shiftCount (candidatePatchNumber s) of
        Inl e \<Rightarrow> Inl e
      | Inr k \<Rightarrow>
          Inr (s\<lparr>prevProgramButtonValue := 1,
                  memoryCellsInUse := memoryCellsInUse s AND NOT (push_bit k 1)\<rparr>))"

definition store_v11 :: "seq_v11 \<Rightarrow> error + seq_v11" where
  "store_v11 s =
     (case shiftCount (candidatePatchNumber s) of
        Inl e \<Rightarrow> Inl e
      | Inr k \<Rightarrow>
          Inr (s\<lparr>prevProgramButtonValue := 1,
                  patches := copyPatch_v11 (patches s) (chosenPatchNumber s) (candidatePatchNumber s),
                  memoryCellsInUse := memoryCellsInUse s OR push_bit k 1\<rparr>))"

definition programMode_v11 :: "inputs \<Rightarrow> int \<Rightarrow> seq_v11 \<Rightarrow> error + seq_v11" where
  "programMode_v11 inp programButtonName s =
     (let s1 = moveCandidate (newPosition inp) s
      in if programButtonName = TRIG_A then
           (if prevProgramButtonValue s1 = 0 then recall_v11 s1 else Inr s1)
         else if programButtonName = TRIG_B then
           (if prevProgramButtonValue s1 = 0 then clear_v11 s1 else Inr s1)
         else if programButtonName = TRIG_D then
           (if prevProgramButtonValue s1 = 0 then store_v11 s1 else Inr s1)
         else Inr s1)"

text \<open>
  \<open>allowLength\<close> stands for the compile-time switch \<^verbatim>\<open>ALLOW_PATTERN_LENGTH_CHANGE\<close>:
  without it the \<^verbatim>\<open>switch\<close> has no case for \<^verbatim>\<open>PATTERN_LENGTH_MODE\<close>.
\<close>

definition modeSwitch_v11 :: "bool \<Rightarrow> inputs \<Rightarrow> int \<Rightarrow> seq_v11 \<Rightarrow> error + seq_v11" where
  "modeSwitch_v11 allowLength inp programButtonName s =
     (if allowLength \<and> mode s = PATTERN_LENGTH_MODE then patternLengthMode_v11 inp s
      else if mode s = NUM_PULSE_MODE then numPulseMode_v11 inp s
      else if mode s = ROTATE_MODE then rotateMode_v11 inp s
      else if mode s = PROGRAM_MODE then programMode_v11 inp programButtonName s
      else Inr s)"

subsection \<open>The sections of \<^verbatim>\<open>loop\<close> around the \<^verbatim>\<open>switch\<close>\<close>

text \<open>
  Reading the trigger buttons. In program mode the pressed button becomes
  \<^verbatim>\<open>programButtonName\<close> (\<open>- 1\<close> when there is none) and a released button re-arms
  \<^verbatim>\<open>prevProgramButtonValue\<close>; \<^verbatim>\<open>checkProgramButtons\<close> of version 1.0 does not know
  button C. In the other modes \<^verbatim>\<open>checkButtons\<close> selects the trigger channel unless the
  escape button is held.
\<close>

definition checkProgramButtons_v10 :: "int option \<Rightarrow> int \<times> int" where
  "checkProgramButtons_v10 pressed =
     (case pressed of
        None \<Rightarrow> (- 1, 0)
      | Some b \<Rightarrow> if b = TRIG_D \<or> b = TRIG_B \<or> b = TRIG_A then (b, 1) else (- 1, 0))"

definition checkProgramButtons_v11 :: "int option \<Rightarrow> int \<times> int" where
  "checkProgramButtons_v11 pressed =
     (case pressed of None \<Rightarrow> (- 1, 0) | Some b \<Rightarrow> (b, 1))"

definition checkButtons :: "inputs \<Rightarrow> ('p, 'z) seq_scheme \<Rightarrow> ('p, 'z) seq_scheme" where
  "checkButtons inp s =
     (if escapeButton inp = 0 then
        (case pressedButton inp of
           None \<Rightarrow> s
         | Some b \<Rightarrow> s\<lparr>selectedTriggerChannel := b\<rparr>)
      else s)"

definition readButtons ::
  "(int option \<Rightarrow> int \<times> int) \<Rightarrow> inputs \<Rightarrow> ('p, 'z) seq_scheme \<Rightarrow> int \<times> ('p, 'z) seq_scheme" where
  "readButtons check inp s =
     (if mode s = PROGRAM_MODE then
        (let (programButtonName, programButtonValue) = check (pressedButton inp)
         in (programButtonName,
             if programButtonValue = 0 then s\<lparr>prevProgramButtonValue := 0\<rparr> else s))
      else (- 1, checkButtons inp s))"

text \<open>
  The mute buttons of version 1.1: with the escape button held, a trigger button
  toggles the mute flag of its channel in the live patch and starts the cooldown.
\<close>

definition toggleMute :: "int \<Rightarrow> MutePatch \<Rightarrow> MutePatch" where
  "toggleMute b P =
     (if b = TRIG_A then P\<lparr>muteA := \<not> muteA P\<rparr>
      else if b = TRIG_B then P\<lparr>muteB := \<not> muteB P\<rparr>
      else if b = TRIG_C then P\<lparr>muteC := \<not> muteC P\<rparr>
      else if b = TRIG_D then P\<lparr>muteD := \<not> muteD P\<rparr>
      else P)"

definition muteButtons_v11 :: "inputs \<Rightarrow> seq_v11 \<Rightarrow> seq_v11" where
  "muteButtons_v11 inp s =
     (let s1 = (if muteDelayFinished inp then s\<lparr>allowMuteButtons := True\<rparr> else s)
      in if escapeButton inp > 0 \<and> allowMuteButtons s1 then
           (case pressedButton inp of
              None \<Rightarrow> s1
            | Some b \<Rightarrow>
                if b = TRIG_A \<or> b = TRIG_B \<or> b = TRIG_C \<or> b = TRIG_D then
                  s1\<lparr>patches := (patches s1)[nat (chosenPatchNumber s1) :=
                                    toggleMute b (patches s1 ! nat (chosenPatchNumber s1))],
                      allowMuteButtons := False\<rparr>
                else s1)
         else s1)"

text \<open>
  A press of the encoder switch changes the mode; \<open>firstMode\<close> is the mode that follows
  \<^verbatim>\<open>MAX_MODE\<close>. The local \<^verbatim>\<open>newPosition\<close> may be replaced by \<^verbatim>\<open>mode1Pos\<close>, so it is
  returned with the state.
\<close>

definition modePress ::
  "int \<Rightarrow> inputs \<Rightarrow> ('p, 'z) seq_scheme \<Rightarrow> int \<times> ('p, 'z) seq_scheme" where
  "modePress firstMode inp s =
     (let prevProg = prog s;
          s0 = s\<lparr>prog := progPin inp\<rparr>
      in if prog s0 \<and> \<not> prevProg then
           (let s1 = (if mode s0 = 1 then s0\<lparr>mode1Pos := newPosition inp\<rparr> else s0)
            in if escapeButton inp \<noteq> 0 then
                 (newPosition inp, s1\<lparr>mode := PROGRAM_MODE, oldPosition := newPosition inp\<rparr>)
               else
                 (let m = mode s1 + 1;
                      m = (if m > MAX_MODE then firstMode else m);
                      newPos = (if m = 1 then mode1Pos s1 else newPosition inp)
                  in (newPos, s1\<lparr>mode := m, oldPosition := newPos\<rparr>)))
         else (newPosition inp, s0))"

text \<open>
  The function inputs F1 to F4 rotate the patterns of the channels D, C, B and A to
  the left on a rising edge; the reset input restarts all step counters.
\<close>

definition functionInput ::
  "int \<Rightarrow> int \<Rightarrow> int \<Rightarrow> 'a Patch_scheme \<Rightarrow> error + 'a Patch_scheme" where
  "functionInput fIn prevF channel P =
     (if fIn > HALF_DAC_RANGE \<and> prevF < HALF_DAC_RANGE
      then rotateLeftChannel P (nat channel) else Inr P)"

definition functionInputs ::
  "inputs \<Rightarrow> ('p, 'z) seq_scheme \<Rightarrow> 'a Patch_scheme \<Rightarrow> error + 'a Patch_scheme" where
  "functionInputs inp s P =
     bindE (functionInput (f1In inp) (prevF1 s) TRIG_D P) (\<lambda>P1.
     bindE (functionInput (f2In inp) (prevF2 s) TRIG_C P1) (\<lambda>P2.
     bindE (functionInput (f3In inp) (prevF3 s) TRIG_B P2) (\<lambda>P3.
     functionInput (f4In inp) (prevF4 s) TRIG_A P3)))"

definition rememberInputs :: "inputs \<Rightarrow> ('p, 'z) seq_scheme \<Rightarrow> ('p, 'z) seq_scheme" where
  "rememberInputs inp s =
     s\<lparr>prevF1 := f1In inp, prevF2 := f2In inp, prevF3 := f3In inp, prevF4 := f4In inp\<rparr>"

definition resetInput :: "inputs \<Rightarrow> ('p, 'z) seq_scheme \<Rightarrow> ('p, 'z) seq_scheme" where
  "resetInput inp s =
     (let deltaResetPinIn = resetPinIn inp - prevResetPinIn s;
          s1 = (if deltaResetPinIn = 1
                then s\<lparr>step := resetSteps (step s), prevResetPinIn := 1\<rparr> else s)
      in if deltaResetPinIn = - 1 then s1\<lparr>prevResetPinIn := 0\<rparr> else s1)"

text \<open>
  The clock. With the external clock selected, a rising edge of the clock input stores
  the time since the previous trigger in \<^verbatim>\<open>delayTime\<close> (an \<^verbatim>\<open>unsigned long\<close>
  assigned to an \<^verbatim>\<open>unsigned int\<close>) and triggers; \<open>low\<close> is the threshold the previous
  reading must be below (300 in version 1.1, 128 in version 1.0). With the internal
  clock a step is triggered when more than \<^verbatim>\<open>delayTime\<close> has passed.
\<close>

definition clock :: "int \<Rightarrow> inputs \<Rightarrow> ('p, 'z) seq_scheme \<Rightarrow> bool \<times> ('p, 'z) seq_scheme" where
  "clock low inp s =
     (if clkPin inp then
        (if extClkV inp > 512 \<and> prevExtClk s < low
         then (True, s\<lparr>delayTime := ucast (thisTime inp - prevTime s),
                        prevExtClk := extClkV inp\<rparr>)
         else (False, s\<lparr>prevExtClk := extClkV inp\<rparr>))
      else (thisTime inp - prevTime s > ucast (delayTime s), s))"

definition advanceSteps :: "int list \<Rightarrow> int list \<Rightarrow> int list" where
  "advanceSteps lens st =
     fold (\<lambda>triggerChannel l.
             (let n = l ! triggerChannel + 1
              in l[triggerChannel := (if n > lens ! triggerChannel - 1 then 0 else n)]))
       [0..<4] st"

definition trigger ::
  "bool \<Rightarrow> inputs \<Rightarrow> int list \<Rightarrow> ('p, 'z) seq_scheme \<Rightarrow> ('p, 'z) seq_scheme" where
  "trigger triggered inp lens s =
     (if triggered then s\<lparr>prevTime := thisTime inp, step := advanceSteps lens (step s)\<rparr>
      else s)"

subsection \<open>One pass of \<^verbatim>\<open>loop\<close>\<close>

definition loop_v10 :: "inputs \<Rightarrow> seq_v10 \<Rightarrow> error + seq_v10" where
  "loop_v10 inp s =
     (let (programButtonName, s1) = readButtons checkProgramButtons_v10 inp s;
          (newPos, s2) = modePress 1 inp s1
      in bindE (functionInputs inp s2 (currentPatch s2)) (\<lambda>P.
         bindE (modeSwitch_v10 (inp\<lparr>newPosition := newPos\<rparr>) programButtonName
                  (resetInput inp (rememberInputs inp (s2\<lparr>currentPatch := P\<rparr>)))) (\<lambda>s3.
         (let (triggered, s4) = clock 128 inp s3
          in Inr (trigger triggered inp (patternLength (currentPatch s4)) s4)))))"

definition loop_v11 :: "bool \<Rightarrow> inputs \<Rightarrow> seq_v11 \<Rightarrow> error + seq_v11" where
  "loop_v11 allowLength inp s =
     (let (programButtonName, s1) = readButtons checkProgramButtons_v11 inp s;
          (newPos, s2) = modePress (if allowLength then PATTERN_LENGTH_MODE else NUM_PULSE_MODE)
                           inp (muteButtons_v11 inp s1)
      in bindE (functionInputs inp s2 (livePatch_v11 s2)) (\<lambda>P.
         bindE (modeSwitch_v11 allowLength (inp\<lparr>newPosition := newPos\<rparr>) programButtonName
                  (resetInput inp (rememberInputs inp
                     (s2\<lparr>patches := (patches s2)[nat (chosenPatchNumber s2) := P]\<rparr>)))) (\<lambda>s3.
         (let (triggered, s4) = clock 300 inp s3
          in Inr (trigger triggered inp (patternLength (livePatch_v11 s4)) s4)))))"

fun run :: "('i \<Rightarrow> 's \<Rightarrow> error + 's) \<Rightarrow> 'i list \<Rightarrow> 's \<Rightarrow> error + 's" where
  "run f [] s = Inr s"
| "run f (inp # inps) s = bindE (f inp s) (run f inps)"

subsection \<open>The state after \<^verbatim>\<open>setup\<close> on a freshly initialised EEPROM\<close>

text \<open>
  \<^verbatim>\<open>initializePatchInEeprom\<close> stores one patch in cell 0, marks only that cell as used,
  and stores trigger channel 3 and delay time 95; \<^verbatim>\<open>setup\<close> reads this back, fills the
  unused cells with \<^verbatim>\<open>createEmptyPatch\<close> and starts in mode 0 (version 1.0) or in
  \<^verbatim>\<open>NUM_PULSE_MODE\<close> (version 1.1 as shipped, without the pattern-length menu).
\<close>

definition factoryPatch_v10 :: Patch where
  "factoryPatch_v10 = \<lparr>pulses = [5, 5, 3, 4], patternLength = [14, 15, 15, 12],
                        channelPattern = [10532, 18724, 16912, 2340]\<rparr>"

definition factoryPatch_v11 :: MutePatch where
  "factoryPatch_v11 = \<lparr>pulses = [5, 5, 3, 4], patternLength = [16, 16, 16, 16],
                        channelPattern = [10532, 18724, 16912, 2340],
                        muteA = False, muteB = False, muteC = False, muteD = False\<rparr>"

definition factoryState_v10 :: seq_v10 where
  "factoryState_v10 =
     \<lparr>step = [0, 0, 0, 0],
      patches = factoryPatch_v10 # replicate 15 (createEmptyPatch_v10 zeroPatch),
      emptyPatch = createEmptyPatch_v10 zeroPatch,
      delayTime = 95, memoryCellsInUse = 1, chosenPatchNumber = 0, candidatePatchNumber = 0,
      selectedTriggerChannel = 3, mode = 0, mode1Pos = 0, prevExtClk = 0, prevTime = 0,
      oldPosition = 0, prog = False, prevF1 = 0, prevF2 = 0, prevF3 = 0, prevF4 = 0,
      prevResetPinIn = 0, prevProgramButtonValue = 0,
      currentPatch = copyPatch_v10 factoryPatch_v10 zeroPatch\<rparr>"

definition factoryState_v11 :: seq_v11 where
  "factoryState_v11 =
     \<lparr>step = [0, 0, 0, 0],
      patches = factoryPatch_v11 # replicate 15 (createEmptyPatch_v11 zeroMutePatch),
      emptyPatch = createEmptyPatch_v11 zeroMutePatch,
      delayTime = 95, memoryCellsInUse = 1, chosenPatchNumber = 0, candidatePatchNumber = 0,
      selectedTriggerChannel = 3, mode = NUM_PULSE_MODE, mode1Pos = 0, prevExtClk = 0,
      prevTime = 0, oldPosition = 0, prog = False, prevF1 = 0, prevF2 = 0, prevF3 = 0,
      prevF4 = 0, prevResetPinIn = 0, prevProgramButtonValue = 0,
      allowMuteButtons = True\<rparr>"

definition idle :: inputs where
  "idle = \<lparr>newPosition = 0, extClkV = 0, f1In = 0, f2In = 0, f3In = 0, f4In = 0,
            resetPinIn = 0, escapeButton = 0, progPin = False, thisTime = 0, clkPin = False,
            pressedButton = None, muteDelayFinished = False\<rparr>"

section \<open>Observations used to state properties\<close>

text \<open>The steps at which a pattern fires, their number, and repeated application.\<close>

definition bitPositions :: "uint \<Rightarrow> nat list" where
  "bitPositions w = filter (bit w) [0..<16]"

definition bitSet :: "uint \<Rightarrow> nat set" where
  "bitSet w = set (bitPositions w)"

definition popcount :: "uint \<Rightarrow> nat" where
  "popcount w = length (bitPositions w)"

fun repeatE :: "nat \<Rightarrow> ('a \<Rightarrow> error + 'a) \<Rightarrow> 'a \<Rightarrow> error + 'a" where
  "repeatE 0 f x = Inr x"
| "repeatE (Suc n) f x = (case f x of Inl e \<Rightarrow> Inl e | Inr y \<Rightarrow> repeatE n f y)"

text \<open>
  The patch that \<^verbatim>\<open>initializePatchInEeprom\<close> of version 1.1 writes to memory cell 0
  (the mute flags, all false, left out).
\<close>

definition factoryPatch :: Patch where
  "factoryPatch = \<lparr>pulses = [5, 5, 3, 4], patternLength = [16, 16, 16, 16],
                    channelPattern = [10532, 18724, 16912, 2340]\<rparr>"

section \<open>Invariants and observations\<close>

text \<open>
  The range of the pattern lengths: of one patch, of the bank with the two patch
  numbers that index it, and of the whole state of each sketch.
\<close>

definition lengthsInRange :: "'a Patch_scheme \<Rightarrow> bool" where
  "lengthsInRange P \<longleftrightarrow> (\<forall>c \<in> {0..<4}. 0 \<le> patternLength P ! c \<and> patternLength P ! c \<le> 16)"

definition bankOK :: "('a Patch_scheme, 'z) seq_scheme \<Rightarrow> bool" where
  "bankOK s \<longleftrightarrow>
     (\<forall>P \<in> set (patches s). lengthsInRange P) \<and> length (patches s) = 16 \<and>
     lengthsInRange (emptyPatch s) \<and>
     0 \<le> candidatePatchNumber s \<and> candidatePatchNumber s \<le> 15 \<and>
     0 \<le> chosenPatchNumber s \<and> chosenPatchNumber s \<le> 15"

definition lengthsOK_v10 :: "seq_v10 \<Rightarrow> bool" where
  "lengthsOK_v10 s \<longleftrightarrow> bankOK s \<and> lengthsInRange (currentPatch s)"

definition lengthsOK_v11 :: "seq_v11 \<Rightarrow> bool" where
  "lengthsOK_v11 s \<longleftrightarrow> bankOK s"

text \<open>
  The selected trigger channel subscripts the arrays of the live patch, and
  \<^verbatim>\<open>checkButtons\<close> assigns it the button it decodes: one of \<^verbatim>\<open>TRIG_A\<close> to
  \<^verbatim>\<open>TRIG_D\<close>. A state is well-formed for the edits when, besides the range of the
  pattern lengths, the selected channel is one of the four channels.
\<close>

definition channelInRange :: "('p, 'z) seq_scheme \<Rightarrow> bool" where
  "channelInRange s \<longleftrightarrow> 0 \<le> selectedTriggerChannel s \<and> selectedTriggerChannel s \<le> 3"

definition buttonInRange :: "inputs \<Rightarrow> bool" where
  "buttonInRange inp \<longleftrightarrow>
     (case pressedButton inp of
        None \<Rightarrow> True
      | Some b \<Rightarrow> b = TRIG_D \<or> b = TRIG_C \<or> b = TRIG_B \<or> b = TRIG_A)"

definition stateOK_v10 :: "seq_v10 \<Rightarrow> bool" where
  "stateOK_v10 s \<longleftrightarrow> lengthsOK_v10 s \<and> channelInRange s"

definition stateOK_v11 :: "seq_v11 \<Rightarrow> bool" where
  "stateOK_v11 s \<longleftrightarrow> lengthsOK_v11 s \<and> channelInRange s"

text \<open>A patch of which every channel has at least one step.\<close>

definition lengthsPositive :: "'a Patch_scheme \<Rightarrow> bool" where
  "lengthsPositive P \<longleftrightarrow> (\<forall>c \<in> {0..<4}. 1 \<le> patternLength P ! c)"

text \<open>The range of the tempo interval, and patches whose arrays have four entries.\<close>

definition tempoInRange :: "('p, 'z) seq_scheme \<Rightarrow> bool" where
  "tempoInRange s \<longleftrightarrow> 10 \<le> delayTime s \<and> delayTime s \<le> 500"

definition wfPatch :: "'a Patch_scheme \<Rightarrow> bool" where
  "wfPatch P \<longleftrightarrow>
     length (pulses P) = 4 \<and> length (patternLength P) = 4 \<and> length (channelPattern P) = 4"

text \<open>
  Clearing a memory cell and recalling it afterwards: the bodies of the cases for
  button B and button A of program mode, one after the other.
\<close>

definition clearThenRecall_v10 :: "seq_v10 \<Rightarrow> error + seq_v10" where
  "clearThenRecall_v10 s = map_sum id recall_v10 (clear_v10 s)"

definition clearThenRecall_v11 :: "seq_v11 \<Rightarrow> error + seq_v11" where
  "clearThenRecall_v11 s = bindE (clear_v11 s) recall_v11"


subsection \<open>Sample inputs\<close>

text \<open>
  Sequences of passes from the factory state. \<open>lengthMenuRun\<close>: one press of the encoder
  switch, then twelve detents. \<open>recallEmptyThenF1\<close>: enter program mode, move to cell 1,
  recall it, then a rising edge on F1. \<open>escapeInPulseMode\<close>: two presses of the encoder
  switch, then a detent with the escape button held. \<open>clearAndRecallCell0\<close>: enter
  program mode, press B, release, press A. \<open>externalPulse\<close>: a rising edge of the
  external clock one second after the previous trigger. \<open>heldDetent\<close>: a detent with
  the escape button held. \<open>lengthDetents\<close>: seventeen detents; \<open>extraDetent\<close>: one
  more; \<open>f1Edge\<close>: a rising edge on F1; \<open>lengthDetentsThenF4\<close>: the seventeen
  detents, then a rising edge on F4.

  With \<^verbatim>\<open>ALLOW_PATTERN_LENGTH_CHANGE\<close> defined, version 1.1 starts in
  \<^verbatim>\<open>PATTERN_LENGTH_MODE\<close>: \<open>lengthMenuState_v11\<close> is the state after \<^verbatim>\<open>setup\<close> of
  that build.
\<close>

definition lengthMenuRun :: "inputs list" where
  "lengthMenuRun =
     idle\<lparr>progPin := True\<rparr> #
     map (\<lambda>k. idle\<lparr>progPin := True, newPosition := 4 * k\<rparr>) [1..12]"

definition recallEmptyThenF1 :: "inputs list" where
  "recallEmptyThenF1 =
     [idle\<lparr>progPin := True, escapeButton := 1\<rparr>,
      idle\<lparr>progPin := True, newPosition := - 4\<rparr>,
      idle\<lparr>progPin := True, newPosition := - 4, pressedButton := Some TRIG_A\<rparr>,
      idle\<lparr>progPin := True, newPosition := - 4, f1In := 600\<rparr>]"


definition clearAndRecallCell0 :: "inputs list" where
  "clearAndRecallCell0 =
     [idle\<lparr>progPin := True, escapeButton := 1\<rparr>,
      idle\<lparr>progPin := True, pressedButton := Some TRIG_B\<rparr>,
      idle\<lparr>progPin := True\<rparr>,
      idle\<lparr>progPin := True, pressedButton := Some TRIG_A\<rparr>]"

definition externalPulse :: inputs where
  "externalPulse = idle\<lparr>clkPin := True, extClkV := 600, thisTime := 1000\<rparr>"


definition lengthDetents :: "inputs list" where
  "lengthDetents = map (\<lambda>k. idle\<lparr>newPosition := 4 * k\<rparr>) [1..17]"

definition extraDetent :: inputs where
  "extraDetent = idle\<lparr>newPosition := 72\<rparr>"

definition f1Edge :: inputs where
  "f1Edge = idle\<lparr>f1In := 600\<rparr>"

definition lengthDetentsThenF4 :: "inputs list" where
  "lengthDetentsThenF4 = lengthDetents @ [idle\<lparr>newPosition := 68, f4In := 600\<rparr>]"

definition lengthMenuState_v11 :: seq_v11 where
  "lengthMenuState_v11 = factoryState_v11\<lparr>mode := PATTERN_LENGTH_MODE\<rparr>"

text \<open>
  The invariant of the loop of \<open>euclid\<close> before iteration \<open>i\<close>: the bucket is below
  the length, only bits below \<open>i\<close> are set, and each set bit accounts for one emptying
  of the bucket.
\<close>

definition euclid_inv :: "int \<Rightarrow> int \<Rightarrow> int \<Rightarrow> int \<Rightarrow> uint \<Rightarrow> bool" where
  "euclid_inv p len i bucket number \<longleftrightarrow>
     0 \<le> p \<and> p \<le> len \<and> len \<le> 16 \<and> 0 \<le> i \<and> i \<le> len \<and> 0 \<le> bucket \<and>
     (bucket < len \<or> len = 0) \<and> (\<forall>j. bit number j \<longrightarrow> int j < i) \<and>
     int (popcount number) * len + bucket = i * p"

section \<open>Rotation: bit-level behaviour\<close>

lemma shiftCount_ok:
  "1 \<le> len \<Longrightarrow> len \<le> 16 \<Longrightarrow> shiftCount (len - 1) = Inr (nat len - 1)"
  by (simp add: shiftCount_def nat_diff_distrib)

lemma rotl_word_bit:
  fixes p :: uint
  assumes "k < 16" "j \<le> k"
  shows "bit (push_bit 1 p OR (drop_bit k p AND 1)) j = bit p ((j + k) mod Suc k)"
proof (cases j)
  case 0
  have "\<not> bit (push_bit 1 p) (0::nat)"
    by (simp only: bit_push_bit_iff) simp
  moreover have "bit (drop_bit k p AND 1) 0 = bit p k"
    by (simp only: bit_and_iff bit_drop_bit_eq bit_1_iff) simp
  ultimately show ?thesis using 0 by (simp only: bit_or_iff) simp
next
  case (Suc i)
  have "j + k = Suc k + i" using Suc by simp
  then have "(j + k) mod Suc k = i mod Suc k" by (simp only: mod_add_self1)
  then have "(j + k) mod Suc k = i" using Suc assms(2) by simp
  moreover have "bit (push_bit 1 p) (Suc i) = bit p i"
    using Suc assms by (simp only: bit_push_bit_iff possible_bit_word) simp
  moreover have "\<not> bit (drop_bit k p AND 1) (Suc i)"
    by (simp only: bit_and_iff bit_1_iff) simp
  ultimately show ?thesis using Suc by (simp only: bit_or_iff) simp
qed

lemma rotr_word_bit:
  fixes p :: uint
  assumes "k < 16" "j \<le> k"
  shows "bit ((drop_bit 1 p AND NOT (push_bit k 1)) OR push_bit k (p AND 1)) j
         = bit p (Suc j mod Suc k)"
proof (cases "j = k")
  case True
  then show ?thesis using assms by (simp add: bit_simps)
next
  case False
  then have "Suc j mod Suc k = Suc j" using assms(2) by simp
  then show ?thesis using False assms by (auto simp add: bit_simps)
qed

lemma rotateLeft_step:
  assumes "1 \<le> len" "len \<le> 16"
  shows "\<exists>q. rotateLeft p len = Inr q \<and>
           (\<forall>j < nat len. bit q j = bit p ((j + (nat len - 1)) mod nat len))"
proof -
  let ?k = "nat len - 1"
  have k: "?k < 16" "Suc ?k = nat len" using assms by auto
  have "\<forall>j < nat len. bit (push_bit 1 p OR (drop_bit ?k p AND 1)) j
          = bit p ((j + ?k) mod nat len)"
    using rotl_word_bit [of ?k _ p] k by (metis less_Suc_eq_le)
  then show ?thesis
    by (simp add: rotateLeft_def shiftCount_ok [OF assms])
qed

lemma rotateRight_step:
  assumes "1 \<le> len" "len \<le> 16"
  shows "\<exists>q. rotateRight p len = Inr q \<and>
           (\<forall>j < nat len. bit q j = bit p (Suc j mod nat len))"
proof -
  let ?k = "nat len - 1"
  have k: "?k < 16" "Suc ?k = nat len" using assms by auto
  have "\<forall>j < nat len. bit ((drop_bit 1 p AND NOT (push_bit ?k 1)) OR push_bit ?k (p AND 1)) j
          = bit p (Suc j mod nat len)"
    using rotr_word_bit [of ?k _ p] k by (metis less_Suc_eq_le)
  then show ?thesis
    by (simp add: rotateRight_def shiftCount_ok [OF assms])
qed

lemma repeat_rotateLeft_bits:
  assumes "1 \<le> len" "len \<le> 16"
  shows "\<exists>q. repeatE n (\<lambda>w. rotateLeft w len) p = Inr q \<and>
           (\<forall>j < nat len. bit q j = bit p ((j + n * (nat len - 1)) mod nat len))"
proof (induction n arbitrary: p)
  case 0
  then show ?case by simp
next
  case (Suc n)
  obtain q where q: "rotateLeft p len = Inr q"
      "\<forall>j < nat len. bit q j = bit p ((j + (nat len - 1)) mod nat len)"
    using rotateLeft_step [OF assms, of p] by blast
  obtain r where r: "repeatE n (\<lambda>w. rotateLeft w len) q = Inr r"
      "\<forall>j < nat len. bit r j = bit q ((j + n * (nat len - 1)) mod nat len)"
    using Suc.IH [of q] by blast
  have pos: "0 < nat len" using assms by simp
  have "bit r j = bit p ((j + Suc n * (nat len - 1)) mod nat len)" if "j < nat len" for j
  proof -
    let ?m = "(j + n * (nat len - 1)) mod nat len"
    have "?m < nat len" using pos by simp
    then have "bit q ?m = bit p ((?m + (nat len - 1)) mod nat len)" using q(2) by blast
    also have "(?m + (nat len - 1)) mod nat len
                 = ((j + n * (nat len - 1)) + (nat len - 1)) mod nat len"
      by (simp only: mod_add_left_eq)
    also have "(j + n * (nat len - 1)) + (nat len - 1) = j + Suc n * (nat len - 1)"
      by simp
    finally show ?thesis using r(2) that by simp
  qed
  then show ?case using q(1) r(1) by simp
qed

lemma repeat_rotateRight_bits:
  assumes "1 \<le> len" "len \<le> 16"
  shows "\<exists>q. repeatE n (\<lambda>w. rotateRight w len) p = Inr q \<and>
           (\<forall>j < nat len. bit q j = bit p ((j + n) mod nat len))"
proof (induction n arbitrary: p)
  case 0
  then show ?case by simp
next
  case (Suc n)
  obtain q where q: "rotateRight p len = Inr q"
      "\<forall>j < nat len. bit q j = bit p (Suc j mod nat len)"
    using rotateRight_step [OF assms, of p] by blast
  obtain r where r: "repeatE n (\<lambda>w. rotateRight w len) q = Inr r"
      "\<forall>j < nat len. bit r j = bit q ((j + n) mod nat len)"
    using Suc.IH [of q] by blast
  have pos: "0 < nat len" using assms by simp
  have "bit r j = bit p ((j + Suc n) mod nat len)" if "j < nat len" for j
  proof -
    let ?m = "(j + n) mod nat len"
    have "?m < nat len" using pos by simp
    then have "bit q ?m = bit p (Suc ?m mod nat len)" using q(2) by blast
    also have "Suc ?m mod nat len = (j + Suc n) mod nat len"
      by (simp add: mod_Suc_eq)
    finally show ?thesis using r(2) that by simp
  qed
  then show ?case using q(1) r(1) by simp
qed

text \<open>
  C4. For every pattern and every length from 1 to 16, applying \<open>rotateLeft\<close> length
  times, and likewise \<open>rotateRight\<close> length times, runs without an undefined shift and
  yields a pattern whose low length bits are those of the original pattern. Bits at
  positions from length upwards are not compared.
\<close>

theorem rotate_round_trip:
  assumes "1 \<le> len" "len \<le> 16"
  shows "map_sum id (take_bit (nat len)) (repeatE (nat len) (\<lambda>w. rotateLeft w len) p)
           = Inr (take_bit (nat len) p)
       \<and> map_sum id (take_bit (nat len)) (repeatE (nat len) (\<lambda>w. rotateRight w len) p)
           = Inr (take_bit (nat len) p)"
proof -
  obtain q where q: "repeatE (nat len) (\<lambda>w. rotateLeft w len) p = Inr q"
      "\<forall>j < nat len. bit q j = bit p ((j + nat len * (nat len - 1)) mod nat len)"
    using repeat_rotateLeft_bits [OF assms, of "nat len" p] by blast
  obtain r where r: "repeatE (nat len) (\<lambda>w. rotateRight w len) p = Inr r"
      "\<forall>j < nat len. bit r j = bit p ((j + nat len) mod nat len)"
    using repeat_rotateRight_bits [OF assms, of "nat len" p] by blast
  have "take_bit (nat len) q = take_bit (nat len) p"
    using q(2) by (auto simp add: bit_eq_iff bit_take_bit_iff)
  moreover have "take_bit (nat len) r = take_bit (nat len) p"
    using r(2) by (auto simp add: bit_eq_iff bit_take_bit_iff)
  ultimately show ?thesis using q(1) r(1) by simp
qed

theorem rotate_round_trip_witness:
  "(1::int) \<le> 5 \<and> (5::int) \<le> 16
   \<and> map_sum id (take_bit 5) (repeatE 5 (\<lambda>w. rotateLeft w 5) (0x9248 :: uint))
       = Inr (take_bit 5 0x9248)
   \<and> map_sum id (take_bit 5) (repeatE 5 (\<lambda>w. rotateRight w 5) (0x9248 :: uint))
       = Inr (take_bit 5 0x9248)"
  using rotate_round_trip [of 5 "0x9248"] by simp

lemma Inr_projr: "\<not> isl r \<Longrightarrow> r = Inr (projr r)"
  by (cases r) simp_all

lemma take_bit_1_eq:
  fixes q p :: uint
  assumes "bit q 0 = bit p 0"
  shows "take_bit 1 q = take_bit 1 p"
proof (rule bit_eqI)
  fix n
  show "bit (take_bit 1 q) n = bit (take_bit 1 p) n"
    using assms by (cases n) (simp_all add: bit_take_bit_iff bit_0)
qed

lemma rotate_low_bit:
  "map_sum id (take_bit 1) (rotateLeft p 1) = Inr (take_bit 1 p)"
  "map_sum id (take_bit 1) (rotateRight p 1) = Inr (take_bit 1 p)"
proof -
  obtain q where q: "rotateLeft p 1 = Inr q"
      "\<forall>j < nat 1. bit q j = bit p ((j + (nat 1 - 1)) mod nat 1)"
    using rotateLeft_step [of 1 p] by auto
  have "bit q 0 = bit p 0" using q(2) [rule_format, of 0] by simp
  then show "map_sum id (take_bit 1) (rotateLeft p 1) = Inr (take_bit 1 p)"
    using q(1) take_bit_1_eq [of q p] by simp
  obtain r where r: "rotateRight p 1 = Inr r"
      "\<forall>j < nat 1. bit r j = bit p (Suc j mod nat 1)"
    using rotateRight_step [of 1 p] by auto
  have "bit r 0 = bit p 0" using r(2) [rule_format, of 0] by simp
  then show "map_sum id (take_bit 1) (rotateRight p 1) = Inr (take_bit 1 p)"
    using r(1) take_bit_1_eq [of r p] by simp
qed

text \<open>
  C5 (as the specification states it): the rotations never evaluate a shift by a negative
  amount, the length 0 being guarded. Neither function has a guard: called with length
  0, both shift by - 1. Version 1.0 gets there from the factory state in four passes:
  enter program mode, move to the unused cell 1 (whose pattern lengths are 0), recall
  it, and let a rising edge on F1 rotate channel D.
\<close>

theorem rotate_zero_length_counterexample:
  "rotateLeft 0x9248 0 = Inl UndefinedShift \<and> rotateRight 0x9248 0 = Inl UndefinedShift
   \<and> run loop_v10 recallEmptyThenF1 factoryState_v10 = Inl UndefinedShift"
proof (intro conjI)
  show "rotateLeft 0x9248 0 = Inl UndefinedShift"
    by (simp add: rotateLeft_def shiftCount_def)
  show "rotateRight 0x9248 0 = Inl UndefinedShift"
    by (simp add: rotateRight_def shiftCount_def)
  show "run loop_v10 recallEmptyThenF1 factoryState_v10 = Inl UndefinedShift"
    by code_simp
qed

text \<open>
  C5 (amended). \<open>rotateLeft\<close> and \<open>rotateRight\<close> return a pattern exactly for the
  lengths 1 to 16, for which the shift amounts length - 1 lie in 0..15; called with
  length 1 they leave the low bit of the pattern unchanged.
\<close>

theorem rotate_defined_range:
  "((\<exists>q. rotateLeft p len = Inr q) \<longleftrightarrow> 1 \<le> len \<and> len \<le> 16)
   \<and> ((\<exists>q. rotateRight p len = Inr q) \<longleftrightarrow> 1 \<le> len \<and> len \<le> 16)
   \<and> map_sum id (take_bit 1) (rotateLeft p 1) = Inr (take_bit 1 p)
   \<and> map_sum id (take_bit 1) (rotateRight p 1) = Inr (take_bit 1 p)"
proof -
  have "(\<exists>q. rotateLeft p len = Inr q) \<longleftrightarrow> 1 \<le> len \<and> len \<le> 16"
    by (auto simp add: rotateLeft_def shiftCount_def Let_def)
  moreover have "(\<exists>q. rotateRight p len = Inr q) \<longleftrightarrow> 1 \<le> len \<and> len \<le> 16"
    by (auto simp add: rotateRight_def shiftCount_def Let_def)
  ultimately show ?thesis using rotate_low_bit [of p] by blast
qed

section \<open>The generator: loop invariant and results\<close>

lemma popcount_card: "popcount w = card {j. bit w j}"
proof -
  have "{i. i < length [0..<16::nat] \<and> bit w ([0..<16] ! i)} = {j. bit w j}"
    using bit_imp_le_length [of w] by auto
  then show ?thesis
    unfolding popcount_def bitPositions_def length_filter_conv_card by simp
qed

lemma finite_bits: "finite {j. bit (w::uint) j}"
proof -
  have "{j. bit w j} \<subseteq> {..<16}" using bit_imp_le_length [of w] by auto
  then show ?thesis by (rule finite_subset) simp
qed

lemma bit_set_one:
  fixes w :: uint
  assumes "k < 16"
  shows "bit (w OR push_bit k 1) j \<longleftrightarrow> bit w j \<or> j = k"
  using assms by (auto simp only: bit_or_iff bit_push_bit_iff possible_bit_word bit_1_iff) simp_all

lemma popcount_set_bit:
  assumes "k < 16" "\<not> bit w k"
  shows "popcount (w OR push_bit k 1) = Suc (popcount w)"
proof -
  have "{j. bit (w OR push_bit k 1) j} = insert k {j. bit w j}"
    using bit_set_one [OF assms(1)] by auto
  then show ?thesis
    using assms(2) finite_bits [of w] by (simp add: popcount_card)
qed

lemma popcount_no_bits: "(\<forall>j. \<not> bit w j) \<Longrightarrow> popcount w = 0"
  by (simp add: popcount_card)

lemma multiple_in_range:
  fixes len d b :: int
  assumes "len * d = b" "0 \<le> b" "b < len"
  shows "d = 0"
proof (rule ccontr)
  assume "d \<noteq> 0"
  then consider "1 \<le> d" | "d \<le> -1" by linarith
  then show False
  proof cases
    case 1
    have "0 < len" using assms by linarith
    then have "len * 1 \<le> len * d" using 1 by (intro mult_left_mono) simp_all
    then show False using assms by simp
  next
    case 2
    have "0 < len" using assms by linarith
    then have "len * d \<le> len * (-1)" using 2 by (intro mult_left_mono) simp_all
    then show False using assms \<open>0 < len\<close> by simp
  qed
qed

lemma euclid_loop_low_bits:
  "euclid_loop p len i bucket number = Inr w \<Longrightarrow> 0 \<le> i \<Longrightarrow> int j < i
     \<Longrightarrow> bit w j = bit number j"
proof (induction p len i bucket number rule: euclid_loop.induct)
  case (1 p len i bucket number)
  show ?case
  proof (cases "i < len")
    case False
    then show ?thesis using "1.prems" by (simp add: euclid_loop.simps [of p len i])
  next
    case True
    show ?thesis
    proof (cases "bucket + p \<ge> len")
      case fire: True
      show ?thesis
      proof (cases "i < 16")
        case True
        then have sc: "shiftCount i = Inr (nat i)" using "1.prems" by (simp add: shiftCount_def)
        have run: "euclid_loop p len (i + 1) (bucket + p - len) (number OR push_bit (nat i) 1) = Inr w"
          using "1.prems"(1) \<open>i < len\<close> fire sc by (simp add: euclid_loop.simps [of p len i])
        have "bit w j = bit (number OR push_bit (nat i) 1) j"
          using "1.IH"(1) [OF \<open>i < len\<close> fire sc run] "1.prems" by simp
        moreover have "nat i < 16" "j \<noteq> nat i" using True "1.prems" by auto
        ultimately show ?thesis using bit_set_one [of "nat i" number j] by simp
      next
        case False
        then have "shiftCount i = Inl UndefinedShift" by (simp add: shiftCount_def)
        then show ?thesis
          using "1.prems"(1) \<open>i < len\<close> fire by (simp add: euclid_loop.simps [of p len i])
      qed
    next
      case nofire: False
      have run: "euclid_loop p len (i + 1) (bucket + p) number = Inr w"
        using "1.prems"(1) \<open>i < len\<close> nofire by (simp add: euclid_loop.simps [of p len i])
      show ?thesis
        using "1.IH"(2) [OF \<open>i < len\<close> nofire run] "1.prems" by simp
    qed
  qed
qed

lemma euclid_loop_correct:
  "euclid_inv p len i bucket number \<Longrightarrow>
     \<exists>w. euclid_loop p len i bucket number = Inr w \<and> int (popcount w) = p \<and>
         (\<forall>j. bit w j \<longrightarrow> int j < len) \<and>
         (i < len \<and> 1 \<le> p \<longrightarrow> bit w (nat (len - 1)))"
proof (induction p len i bucket number rule: euclid_loop.induct)
  case (1 p len i bucket number)
  note inv = "1.prems" [unfolded euclid_inv_def]
  show ?case
  proof (cases "i < len")
    case False
    then have il: "i = len" using inv by simp
    have "int (popcount number) = p"
    proof (cases "len = 0")
      case True
      then have "\<forall>j. \<not> bit number j" using inv il by auto
      then show ?thesis using popcount_no_bits inv True by simp
    next
      case False
      have "len * (p - int (popcount number)) = bucket"
        using inv il by (simp add: algebra_simps)
      then have "p - int (popcount number) = 0"
        using inv False by (intro multiple_in_range [of len _ bucket]) auto
      then show ?thesis by simp
    qed
    moreover have "euclid_loop p len i bucket number = Inr number"
      using False by (simp add: euclid_loop.simps [of p len i])
    ultimately show ?thesis using inv il by auto
  next
    case True
    then have i16: "nat i < 16" and sc: "shiftCount i = Inr (nat i)"
      using inv by (auto simp add: shiftCount_def)
    show ?thesis
    proof (cases "bucket + p \<ge> len")
      case fire: True
      let ?n = "number OR push_bit (nat i) 1"
      have nb: "\<not> bit number (nat i)"
      proof
        assume "bit number (nat i)"
        then have "int (nat i) < i" using inv by blast
        then show False using inv by simp
      qed
      have pc: "popcount ?n = Suc (popcount number)"
        using popcount_set_bit [OF i16 nb] .
      have "int (popcount ?n) * len + (bucket + p - len) = (i + 1) * p"
        using inv pc by (simp add: algebra_simps)
      moreover have "\<forall>j. bit ?n j \<longrightarrow> int j < i + 1"
      proof (intro allI impI)
        fix j assume "bit ?n j"
        then have "bit number j \<or> j = nat i" using bit_set_one [OF i16, of number j] by simp
        then show "int j < i + 1" using inv by auto
      qed
      moreover have "0 \<le> bucket + p - len" "bucket + p - len < len"
        using inv True fire by linarith+
      moreover have "0 \<le> p" "p \<le> len" "len \<le> 16" "0 \<le> i + 1" "i + 1 \<le> len"
        using inv True by linarith+
      ultimately have inv': "euclid_inv p len (i + 1) (bucket + p - len) ?n"
        unfolding euclid_inv_def by blast
      from "1.IH"(1) [OF True fire sc inv']
      obtain w where w: "euclid_loop p len (i + 1) (bucket + p - len) ?n = Inr w"
          "int (popcount w) = p" "\<forall>j. bit w j \<longrightarrow> int j < len"
          "i + 1 < len \<and> 1 \<le> p \<longrightarrow> bit w (nat (len - 1))"
        by blast
      have run: "euclid_loop p len i bucket number = Inr w"
        using True fire sc w(1) by (simp add: euclid_loop.simps [of p len i])
      have "bit w (nat (len - 1))" if "i + 1 = len"
      proof -
        have "int (nat i) < i + 1" using inv by simp
        from euclid_loop_low_bits [OF w(1) _ this]
        have "bit w (nat i) = bit ?n (nat i)" using inv by simp
        then have "bit w (nat i)" using bit_set_one [OF i16, of number "nat i"] by simp
        moreover have "nat (len - 1) = nat i" using that by simp
        ultimately show ?thesis by simp
      qed
      then have "bit w (nat (len - 1))" if "1 \<le> p" using w(4) True that by (cases "i + 1 = len") auto
      then show ?thesis using run w by auto
    next
      case nofire: False
      have "int (popcount number) * len + (bucket + p) = (i + 1) * p"
        using inv by (simp add: algebra_simps)
      moreover have "0 \<le> bucket + p" "bucket + p < len"
        using inv True nofire by linarith+
      moreover have "0 \<le> p" "p \<le> len" "len \<le> 16" "0 \<le> i + 1" "i + 1 \<le> len"
        using inv True by linarith+
      moreover have "\<forall>j. bit number j \<longrightarrow> int j < i + 1"
        using inv by fastforce
      ultimately have inv': "euclid_inv p len (i + 1) (bucket + p) number"
        unfolding euclid_inv_def by blast
      from "1.IH"(2) [OF True nofire inv']
      obtain w where w: "euclid_loop p len (i + 1) (bucket + p) number = Inr w"
          "int (popcount w) = p" "\<forall>j. bit w j \<longrightarrow> int j < len"
          "i + 1 < len \<and> 1 \<le> p \<longrightarrow> bit w (nat (len - 1))"
        by blast
      have run: "euclid_loop p len i bucket number = Inr w"
        using True nofire w(1) by (simp add: euclid_loop.simps [of p len i])
      have "i + 1 < len" if "1 \<le> p"
      proof (rule ccontr)
        assume "\<not> i + 1 < len"
        then have il: "i = len - 1" using True by simp
        have "len * (p - int (popcount number)) = bucket + p"
          using inv il by (simp add: algebra_simps)
        moreover have "0 \<le> bucket + p" "bucket + p < len" using inv that nofire by auto
        ultimately have "p - int (popcount number) = 0"
          by (intro multiple_in_range [of len _ "bucket + p"]) auto
        then have "bucket + p = 0" using \<open>len * (p - int (popcount number)) = bucket + p\<close> by simp
        then show False using inv that by simp
      qed
      then show ?thesis using run w by auto
    qed
  qed
qed


lemma euclid_start:
  assumes "0 \<le> p" "p \<le> len" "len \<le> 16"
  shows "euclid_inv p len 0 0 0"
  using assms by (auto simp add: euclid_inv_def popcount_no_bits)

lemma euclid_loop_first:
  "1 \<le> len \<Longrightarrow> euclid_loop p len 0 0 0 =
     (if len \<le> p then euclid_loop p len 1 (p - len) 1 else euclid_loop p len 1 p 0)"
  by (simp add: euclid_loop.simps [of p len 0] shiftCount_def)

lemma euclid_loop_5_16: "euclid_loop 5 16 0 0 0 = Inr 0x9248"
  by (simp add: euclid_loop.simps shiftCount_def)

lemma bitPositions_9248: "bitPositions 0x9248 = [3, 6, 9, 12, 15]"
  by (simp add: bitPositions_def upt_rec)

text \<open>
  C1 (as the specification states it). For 5 pulses on 16 steps the scenario expects the firing
  steps 0, 3, 6, 9, 12 and 14. On the factory patch, whose channel 0 has 5 pulses and
  length 16, \<open>euclid\<close> returns a different set.
\<close>

theorem euclid_5_16_counterexample:
  "map_sum id bitSet (euclid factoryPatch 0) \<noteq> Inr {0, 3, 6, 9, 12, 14}"
proof -
  have "map_sum id bitSet (euclid factoryPatch 0) = Inr {3, 6, 9, 12, 15}"
    by (simp add: euclid_def factoryPatch_def euclid_loop_5_16 bitSet_def bitPositions_9248)
  moreover have "(15::nat) \<in> {3, 6, 9, 12, 15}" "(15::nat) \<notin> {0, 3, 6, 9, 12, 14}"
    by simp_all
  ultimately show ?thesis by (metis sum.inject(2))
qed

text \<open>
  C1 (amended). For 5 pulses on 16 steps \<open>euclid\<close> returns the pattern whose set bits
  are exactly the positions 3, 6, 9, 12 and 15.
\<close>

theorem euclid_5_16:
  "pulses P ! c = 5 \<Longrightarrow> patternLength P ! c = 16
     \<Longrightarrow> map_sum id bitSet (euclid P c) = Inr {3, 6, 9, 12, 15}"
  by (simp add: euclid_def euclid_loop_5_16 bitSet_def bitPositions_9248)

theorem euclid_5_16_witness:
  "pulses factoryPatch ! 0 = 5 \<and> patternLength factoryPatch ! 0 = 16
     \<and> map_sum id bitSet (euclid factoryPatch 0) = Inr {3, 6, 9, 12, 15}"
  using euclid_5_16 [of factoryPatch 0] by (simp add: factoryPatch_def)

text \<open>
  C2. For every pulse count and pattern length with 0 \<le> pulses \<le> length \<le> 16,
  \<open>euclid\<close> returns a pattern (no undefined shift) that has exactly pulses bits set,
  all of them among its low length bits.
\<close>

theorem euclid_popcount:
  assumes "0 \<le> pulses P ! c" "pulses P ! c \<le> patternLength P ! c" "patternLength P ! c \<le> 16"
  shows "\<exists>w. euclid P c = Inr w \<and> int (popcount w) = pulses P ! c
             \<and> take_bit (nat (patternLength P ! c)) w = w"
proof -
  from euclid_loop_correct [OF euclid_start [OF assms]]
  obtain w where w: "euclid P c = Inr w" "int (popcount w) = pulses P ! c"
      "\<forall>j. bit w j \<longrightarrow> int j < patternLength P ! c"
    unfolding euclid_def by blast
  have "take_bit (nat (patternLength P ! c)) w = w"
    using w(3) by (auto simp add: bit_eq_iff bit_take_bit_iff)
  then show ?thesis using w by blast
qed

theorem euclid_popcount_witness:
  "0 \<le> pulses factoryPatch ! 2 \<and> pulses factoryPatch ! 2 \<le> patternLength factoryPatch ! 2
   \<and> patternLength factoryPatch ! 2 \<le> 16
   \<and> (\<exists>w. euclid factoryPatch 2 = Inr w \<and> int (popcount w) = 3 \<and> take_bit 16 w = w)"
  using euclid_popcount [of factoryPatch 2] by (simp add: factoryPatch_def)

text \<open>
  C3 (as the specification states it): bit 0 is set whenever 1 \<le> pulses \<le> length.
  For 5 pulses on 16 steps the pattern is 0x9248, whose bit 0 is clear.
\<close>

theorem euclid_first_step_counterexample:
  "euclid factoryPatch 0 = Inr 0x9248 \<and> \<not> bit (0x9248 :: uint) 0"
  by (simp add: euclid_def factoryPatch_def euclid_loop_5_16)

text \<open>
  C3 (amended). For 1 \<le> pulses \<le> length \<le> 16, bit 0 of the generated pattern is set
  exactly when pulses = length: the bucket starts empty, so the first step fires only
  when one addition of pulses already reaches length.
\<close>

theorem euclid_first_step:
  assumes "1 \<le> pulses P ! c" "pulses P ! c \<le> patternLength P ! c" "patternLength P ! c \<le> 16"
  shows "\<exists>w. euclid P c = Inr w \<and> (bit w 0 \<longleftrightarrow> pulses P ! c = patternLength P ! c)"
proof -
  let ?p = "pulses P ! c" and ?len = "patternLength P ! c"
  show ?thesis
  proof (cases "?p = ?len")
    case True
    have inv: "euclid_inv ?p ?len 1 0 1"
      using assms True by (simp add: euclid_inv_def popcount_def bitPositions_def upt_rec bit_1_iff)
    from euclid_loop_correct [OF inv]
    obtain w where w: "euclid_loop ?p ?len 1 0 1 = Inr w" by blast
    have "bit w 0 = bit (1::uint) 0"
      using euclid_loop_low_bits [OF w, of 0] by simp
    moreover have "euclid P c = Inr w"
      using w assms True by (simp add: euclid_def euclid_loop_first)
    ultimately show ?thesis using True by simp
  next
    case False
    have inv: "euclid_inv ?p ?len 1 ?p 0"
      using assms False by (simp add: euclid_inv_def popcount_no_bits)
    from euclid_loop_correct [OF inv]
    obtain w where w: "euclid_loop ?p ?len 1 ?p 0 = Inr w" by blast
    have "bit w 0 = bit (0::uint) 0"
      using euclid_loop_low_bits [OF w, of 0] by simp
    moreover have "euclid P c = Inr w"
      using w assms False by (simp add: euclid_def euclid_loop_first)
    ultimately show ?thesis using False by simp
  qed
qed

theorem euclid_first_step_witness:
  "1 \<le> pulses factoryPatch ! 0 \<and> pulses factoryPatch ! 0 \<le> patternLength factoryPatch ! 0
   \<and> patternLength factoryPatch ! 0 \<le> 16
   \<and> (\<exists>w. euclid factoryPatch 0 = Inr w \<and> \<not> bit w 0)"
  using euclid_first_step [of factoryPatch 0] by (simp add: factoryPatch_def)

text \<open>
  C10. For 1 \<le> pulses \<le> length \<le> 16, bit length - 1 of the generated pattern is set:
  the rhythm always fires on the last step of the pattern.
\<close>

theorem euclid_last_step:
  assumes "1 \<le> pulses P ! c" "pulses P ! c \<le> patternLength P ! c" "patternLength P ! c \<le> 16"
  shows "\<exists>w. euclid P c = Inr w \<and> bit w (nat (patternLength P ! c - 1))"
proof -
  have "euclid_inv (pulses P ! c) (patternLength P ! c) 0 0 0"
    using assms by (intro euclid_start) simp_all
  from euclid_loop_correct [OF this] show ?thesis
    using assms unfolding euclid_def by force
qed

theorem euclid_last_step_witness:
  "1 \<le> pulses factoryPatch ! 3 \<and> pulses factoryPatch ! 3 \<le> patternLength factoryPatch ! 3
   \<and> patternLength factoryPatch ! 3 \<le> 16
   \<and> (\<exists>w. euclid factoryPatch 3 = Inr w \<and> bit w 15)"
  using euclid_last_step [of factoryPatch 3] by (simp add: factoryPatch_def)

section \<open>Pattern lengths stay within 0..16\<close>

subsection \<open>Edits of a patch\<close>

lemma bindE_channelIndex:
  "bindE (channelIndex ch) f = Inr y \<longleftrightarrow> 0 \<le> ch \<and> ch < 4 \<and> f (nat ch) = Inr y"
  by (auto simp add: bindE_def channelIndex_def)

lemma nth_update_total:
  "(xs[i := x]) ! j = (if i = j \<and> i < length xs then x else xs ! j)"
  by (cases "i < length xs") (simp_all add: nth_list_update list_update_beyond not_less)

lemma lengthsInRange_update:
  assumes "lengthsInRange P" "0 \<le> v" "v \<le> 16"
  shows "lengthsInRange (P\<lparr>patternLength := (patternLength P)[c := v]\<rparr>)"
  using assms by (auto simp add: lengthsInRange_def nth_update_total)

lemma storePattern_length:
  "storePattern P c r = Inr P' \<Longrightarrow> patternLength P' = patternLength P"
  by (auto simp add: storePattern_def split: sum.splits)

lemma increaseLength_range:
  assumes "increaseLength P c = Inr P'" "lengthsInRange P"
  shows "lengthsInRange P'"
proof -
  let ?l = "patternLength P ! c + 1"
  let ?v = "if ?l > NUM_NEOP_LEDS then NUM_NEOP_LEDS else ?l"
  let ?P1 = "P\<lparr>patternLength := (patternLength P)[c := ?v]\<rparr>"
  have "patternLength P' = patternLength ?P1"
    using assms(1) storePattern_length [of ?P1 c "euclid ?P1 c" P']
    by (simp add: increaseLength_def Let_def)
  moreover have "lengthsInRange ?P1"
  proof (cases "c < 4")
    case True
    then have "0 \<le> patternLength P ! c" using assms(2) by (simp add: lengthsInRange_def)
    then have "0 \<le> ?v" "?v \<le> 16" by (simp_all add: NUM_NEOP_LEDS_def)
    then show ?thesis by (rule lengthsInRange_update [OF assms(2)])
  next
    case False
    then show ?thesis using assms(2) by (auto simp add: lengthsInRange_def nth_update_total)
  qed
  ultimately show ?thesis by (simp add: lengthsInRange_def)
qed

lemma decreaseLength_range:
  assumes "decreaseLength P c = Inr P'" "lengthsInRange P"
  shows "lengthsInRange P'"
proof -
  let ?l = "patternLength P ! c - 1"
  let ?v = "if ?l < 0 then 0 else ?l"
  let ?P1 = "P\<lparr>patternLength := (patternLength P)[c := ?v]\<rparr>"
  have "patternLength P' = patternLength ?P1"
    using assms(1) storePattern_length [of ?P1 c "euclid ?P1 c" P']
    by (simp add: decreaseLength_def Let_def)
  moreover have "lengthsInRange ?P1"
  proof (cases "c < 4")
    case True
    then have "patternLength P ! c \<le> 16" using assms(2) by (simp add: lengthsInRange_def)
    then have "0 \<le> ?v" "?v \<le> 16" by simp_all
    then show ?thesis by (rule lengthsInRange_update [OF assms(2)])
  next
    case False
    then show ?thesis using assms(2) by (auto simp add: lengthsInRange_def nth_update_total)
  qed
  ultimately show ?thesis by (simp add: lengthsInRange_def)
qed

lemma pulses_edit_length:
  "increasePulses P c = Inr P' \<Longrightarrow> patternLength P' = patternLength P"
  "decreasePulses P c = Inr P' \<Longrightarrow> patternLength P' = patternLength P"
  using storePattern_length
  by (fastforce simp add: increasePulses_def decreasePulses_def Let_def)+

lemma rotate_channel_length:
  "rotateLeftChannel P c = Inr P' \<Longrightarrow> patternLength P' = patternLength P"
  "rotateRightChannel P c = Inr P' \<Longrightarrow> patternLength P' = patternLength P"
  using storePattern_length
  by (fastforce simp add: rotateLeftChannel_def rotateRightChannel_def)+

lemma functionInput_length:
  "functionInput fIn prevF ch P = Inr P' \<Longrightarrow> patternLength P' = patternLength P"
  using rotate_channel_length(1) by (fastforce simp add: functionInput_def split: if_splits)

lemma bindE_Inr: "bindE m f = Inr y \<longleftrightarrow> (\<exists>x. m = Inr x \<and> f x = Inr y)"
  by (cases m) (simp_all add: bindE_def)

lemma functionInputs_length:
  assumes "functionInputs inp s P = Inr P'"
  shows "patternLength P' = patternLength P"
proof -
  from assms obtain P1 P2 P3 where
    "functionInput (f1In inp) (prevF1 s) TRIG_D P = Inr P1"
    "functionInput (f2In inp) (prevF2 s) TRIG_C P1 = Inr P2"
    "functionInput (f3In inp) (prevF3 s) TRIG_B P2 = Inr P3"
    "functionInput (f4In inp) (prevF4 s) TRIG_A P3 = Inr P'"
    unfolding functionInputs_def bindE_Inr by blast
  then show ?thesis using functionInput_length by metis
qed

lemma fold4: "fold f [0..<4] x = f 3 (f 2 (f 1 (f 0 x)))"
proof -
  have "[0..<4] = [0, 1, 2, 3::nat]" by (simp add: upt_rec)
  then show ?thesis by simp
qed

lemma copyPatch_v10_range:
  assumes "lengthsInRange src" "lengthsInRange dst"
  shows "lengthsInRange (copyPatch_v10 src dst)"
  using assms
  by (auto simp add: copyPatch_v10_def fold4 lengthsInRange_def nth_update_total)

lemma createEmptyPatch_v11_range:
  assumes "lengthsInRange dst"
  shows "lengthsInRange (createEmptyPatch_v11 dst)"
  using assms
  by (auto simp add: createEmptyPatch_v11_def fold4 lengthsInRange_def nth_update_total
      DEFAULT_PATTERN_LENGTH_def)

lemma toggleMute_range: "lengthsInRange (toggleMute b P) = lengthsInRange P"
  by (simp add: toggleMute_def lengthsInRange_def)

lemma set_update_range:
  assumes "\<forall>P \<in> set ps. lengthsInRange P" "lengthsInRange Q"
  shows "\<forall>P \<in> set (ps[k := Q]). lengthsInRange P"
  using assms set_update_subset_insert [of ps k Q] by auto

lemma copyPatch_v11_range:
  assumes "\<forall>P \<in> set ps. lengthsInRange P" "nat src < length ps" "nat dst < length ps"
  shows "\<forall>P \<in> set (copyPatch_v11 ps src dst). lengthsInRange P"
proof -
  have "lengthsInRange (ps ! nat src)" "lengthsInRange (ps ! nat dst)"
    using assms by simp_all
  then show ?thesis
    unfolding copyPatch_v11_def Let_def
    by (intro set_update_range [OF assms(1)])
       (auto simp add: fold4 lengthsInRange_def nth_update_total)
qed

lemma restart_live_v10:
  assumes "restart_v10 (live_v10 np s r) = Inr s'"
  obtains P where "r = Inr P"
    "s' = s\<lparr>currentPatch := P, oldPosition := np, step := resetSteps (step s)\<rparr>"
  using assms by (cases r) (simp_all add: restart_v10_def live_v10_def)

lemma live_v10_result:
  assumes "live_v10 np s r = Inr s'"
  obtains P where "r = Inr P" "s' = s\<lparr>currentPatch := P, oldPosition := np\<rparr>"
  using assms by (cases r) (simp_all add: live_v10_def)

lemma live_v11_result:
  assumes "live_v11 np s r = Inr s'"
  obtains P where "r = Inr P"
    "s' = s\<lparr>patches := (patches s)[nat (chosenPatchNumber s) := P], oldPosition := np\<rparr>"
  using assms by (cases r) (simp_all add: live_v11_def)

lemma tempoEdit_v10: "stateOK_v10 (tempoEdit np s) = stateOK_v10 s"
  by (simp add: tempoEdit_def stateOK_v10_def lengthsOK_v10_def channelInRange_def bankOK_def Let_def)

lemma tempoEdit_v11: "stateOK_v11 (tempoEdit np s) = stateOK_v11 s"
  by (simp add: tempoEdit_def stateOK_v11_def lengthsOK_v11_def channelInRange_def bankOK_def Let_def)

lemma moveCandidate_bank: "bankOK s \<Longrightarrow> bankOK (moveCandidate np s)"
  by (simp add: moveCandidate_def bankOK_def Let_def NR_OF_MEMORY_CELLS_def NUM_NEOP_LEDS_def)

lemma moveCandidate_v10: "stateOK_v10 s \<Longrightarrow> stateOK_v10 (moveCandidate np s)"
  using moveCandidate_bank [of s np]
  by (simp add: stateOK_v10_def lengthsOK_v10_def channelInRange_def) (simp add: moveCandidate_def Let_def)

lemma edit_v10:
  "stateOK_v10 s \<Longrightarrow> lengthsInRange P
     \<Longrightarrow> stateOK_v10 (s\<lparr>currentPatch := P, oldPosition := np\<rparr>)"
  by (simp add: stateOK_v10_def lengthsOK_v10_def channelInRange_def bankOK_def)

lemma step_v10: "stateOK_v10 (s\<lparr>step := st\<rparr>) = stateOK_v10 s"
  by (simp add: stateOK_v10_def lengthsOK_v10_def channelInRange_def bankOK_def)

lemma current_v10: "stateOK_v10 s \<Longrightarrow> lengthsInRange (currentPatch s)"
  by (simp add: stateOK_v10_def lengthsOK_v10_def channelInRange_def)

lemma patternLengthMode_v10_lengths:
  assumes "stateOK_v10 s" "patternLengthMode_v10 inp s = Inr s'"
  shows "stateOK_v10 s'"
proof -
  let ?c = "nat (selectedTriggerChannel s)" and ?np = "newPosition inp"
  consider (tempo) "escapeButton inp \<noteq> 0"
    | (up) "escapeButton inp = 0" "?np < oldPosition s - 3"
    | (down) "escapeButton inp = 0" "\<not> ?np < oldPosition s - 3" "?np > oldPosition s + 3"
    | (none) "escapeButton inp = 0" "\<not> ?np < oldPosition s - 3" "\<not> ?np > oldPosition s + 3"
    by blast
  then show ?thesis
  proof cases
    case tempo
    then have "s' = tempoEdit ?np s" using assms(2) by (simp add: patternLengthMode_v10_def bindE_channelIndex)
    then show ?thesis using assms(1) by (simp add: tempoEdit_v10)
  next
    case up
    then have "restart_v10 (live_v10 ?np s (increaseLength (currentPatch s) ?c)) = Inr s'"
      using assms(2) by (simp add: patternLengthMode_v10_def bindE_channelIndex)
    then obtain P where P: "increaseLength (currentPatch s) ?c = Inr P"
        "s' = s\<lparr>currentPatch := P, oldPosition := ?np, step := resetSteps (step s)\<rparr>"
      by (rule restart_live_v10)
    have "lengthsInRange P" using increaseLength_range [OF P(1) current_v10 [OF assms(1)]] .
    then show ?thesis using P(2) edit_v10 [OF assms(1), of P ?np] by (simp add: step_v10)
  next
    case down
    then have "restart_v10 (live_v10 ?np s (decreaseLength (currentPatch s) ?c)) = Inr s'"
      using assms(2) by (simp add: patternLengthMode_v10_def bindE_channelIndex)
    then obtain P where P: "decreaseLength (currentPatch s) ?c = Inr P"
        "s' = s\<lparr>currentPatch := P, oldPosition := ?np, step := resetSteps (step s)\<rparr>"
      by (rule restart_live_v10)
    have "lengthsInRange P" using decreaseLength_range [OF P(1) current_v10 [OF assms(1)]] .
    then show ?thesis using P(2) edit_v10 [OF assms(1), of P ?np] by (simp add: step_v10)
  next
    case none
    then have "s' = s" using assms(2) by (simp add: patternLengthMode_v10_def bindE_channelIndex)
    then show ?thesis using assms(1) by simp
  qed
qed

lemma bindE_InrE:
  assumes "bindE m f = Inr y"
  obtains x where "m = Inr x" "f x = Inr y"
  using assms by (cases m) (simp_all add: bindE_def)

lemma edit_result_v10:
  assumes "stateOK_v10 s" "restart_v10 (live_v10 np s r) = Inr s'"
    and "\<And>P. r = Inr P \<Longrightarrow> patternLength P = patternLength (currentPatch s)"
  shows "stateOK_v10 s'"
proof -
  from assms(2) obtain P where P: "r = Inr P"
      "s' = s\<lparr>currentPatch := P, oldPosition := np, step := resetSteps (step s)\<rparr>"
    by (rule restart_live_v10)
  have "lengthsInRange P"
    using assms(3) [OF P(1)] current_v10 [OF assms(1)] by (simp add: lengthsInRange_def)
  then show ?thesis using P(2) edit_v10 [OF assms(1), of P np] by (simp add: step_v10)
qed

lemma rotate_result_v10:
  assumes "stateOK_v10 s" "live_v10 np s r = Inr s'"
    and "\<And>P. r = Inr P \<Longrightarrow> patternLength P = patternLength (currentPatch s)"
  shows "stateOK_v10 s'"
proof -
  from assms(2) obtain P where P: "r = Inr P"
      "s' = s\<lparr>currentPatch := P, oldPosition := np\<rparr>"
    by (rule live_v10_result)
  have "lengthsInRange P"
    using assms(3) [OF P(1)] current_v10 [OF assms(1)] by (simp add: lengthsInRange_def)
  then show ?thesis using P(2) edit_v10 [OF assms(1), of P np] by simp
qed

lemma numPulseMode_v10_lengths:
  assumes "stateOK_v10 s" "numPulseMode_v10 inp s = Inr s'"
  shows "stateOK_v10 s'"
proof -
  let ?c = "nat (selectedTriggerChannel s)" and ?np = "newPosition inp"
  consider (up) "?np < oldPosition s - 3"
    | (down) "\<not> ?np < oldPosition s - 3" "?np > oldPosition s + 3"
    | (none) "\<not> ?np < oldPosition s - 3" "\<not> ?np > oldPosition s + 3"
    by blast
  then show ?thesis
  proof cases
    case up
    then have "restart_v10 (live_v10 ?np s (increasePulses (currentPatch s) ?c)) = Inr s'"
      using assms(2) by (simp add: numPulseMode_v10_def bindE_channelIndex)
    then show ?thesis
      by (rule edit_result_v10 [OF assms(1)]) (rule pulses_edit_length(1))
  next
    case down
    then have "restart_v10 (live_v10 ?np s (decreasePulses (currentPatch s) ?c)) = Inr s'"
      using assms(2) by (simp add: numPulseMode_v10_def bindE_channelIndex)
    then show ?thesis
      by (rule edit_result_v10 [OF assms(1)]) (rule pulses_edit_length(2))
  next
    case none
    then have "s' = s" using assms(2) by (simp add: numPulseMode_v10_def bindE_channelIndex)
    then show ?thesis using assms(1) by simp
  qed
qed

lemma rotateMode_v10_lengths:
  assumes "stateOK_v10 s" "rotateMode_v10 inp s = Inr s'"
  shows "stateOK_v10 s'"
proof -
  let ?c = "nat (selectedTriggerChannel s)" and ?np = "newPosition inp"
  consider (right) "?np > oldPosition s + 3"
    | (left) "\<not> ?np > oldPosition s + 3" "?np < oldPosition s - 3"
    | (none) "\<not> ?np > oldPosition s + 3" "\<not> ?np < oldPosition s - 3"
    by blast
  then show ?thesis
  proof cases
    case right
    then have "live_v10 ?np s (rotateRightChannel (currentPatch s) ?c) = Inr s'"
      using assms(2) by (simp add: rotateMode_v10_def bindE_channelIndex)
    then show ?thesis
      by (rule rotate_result_v10 [OF assms(1)]) (rule rotate_channel_length(2))
  next
    case left
    then have "live_v10 ?np s (rotateLeftChannel (currentPatch s) ?c) = Inr s'"
      using assms(2) by (simp add: rotateMode_v10_def bindE_channelIndex)
    then show ?thesis
      by (rule rotate_result_v10 [OF assms(1)]) (rule rotate_channel_length(1))
  next
    case none
    then have "s' = s" using assms(2) by (simp add: rotateMode_v10_def bindE_channelIndex)
    then show ?thesis using assms(1) by simp
  qed
qed

lemma bank_nth:
  assumes "bankOK s"
  shows "lengthsInRange (patches s ! nat (candidatePatchNumber s))"
    and "lengthsInRange (patches s ! nat (chosenPatchNumber s))"
proof -
  have "nat (candidatePatchNumber s) < 16" "nat (chosenPatchNumber s) < 16"
    using assms unfolding bankOK_def by linarith+
  then have "nat (candidatePatchNumber s) < length (patches s)"
       "nat (chosenPatchNumber s) < length (patches s)"
    using assms by (simp_all add: bankOK_def)
  then show "lengthsInRange (patches s ! nat (candidatePatchNumber s))"
    and "lengthsInRange (patches s ! nat (chosenPatchNumber s))"
    using assms by (simp_all add: bankOK_def)
qed

lemma recall_v10_lengths:
  assumes "stateOK_v10 s"
  shows "stateOK_v10 (recall_v10 s)"
proof -
  have "lengthsInRange (copyPatch_v10 (patches s ! nat (candidatePatchNumber s)) (currentPatch s))"
    using assms bank_nth(1) [of s] by (intro copyPatch_v10_range) (simp_all add: stateOK_v10_def lengthsOK_v10_def channelInRange_def)
  then show ?thesis
    using assms by (simp add: recall_v10_def Let_def stateOK_v10_def lengthsOK_v10_def channelInRange_def bankOK_def)
qed

lemma bank_update_v10:
  assumes "stateOK_v10 s" "lengthsInRange Q"
  shows "stateOK_v10 (s\<lparr>prevProgramButtonValue := 1, memoryCellsInUse := m,
                          patches := (patches s)[k := Q]\<rparr>)"
proof -
  have "\<forall>P \<in> set ((patches s)[k := Q]). lengthsInRange P"
    using assms by (intro set_update_range) (simp_all add: stateOK_v10_def lengthsOK_v10_def channelInRange_def bankOK_def)
  then show ?thesis using assms(1) by (simp add: stateOK_v10_def lengthsOK_v10_def channelInRange_def bankOK_def)
qed

lemma clear_v10_lengths:
  assumes "stateOK_v10 s" "clear_v10 s = Inr s'"
  shows "stateOK_v10 s'"
proof (cases "shiftCount (candidatePatchNumber s)")
  case (Inl e)
  then show ?thesis using assms(2) by (simp add: clear_v10_def)
next
  case (Inr k)
  let ?k = "nat (candidatePatchNumber s)"
  have "lengthsInRange (copyPatch_v10 (emptyPatch s) (patches s ! ?k))"
    using assms(1) bank_nth(1) [of s]
    by (intro copyPatch_v10_range) (simp_all add: stateOK_v10_def lengthsOK_v10_def channelInRange_def bankOK_def)
  moreover have "s' = s\<lparr>prevProgramButtonValue := 1,
                        memoryCellsInUse := memoryCellsInUse s AND NOT (push_bit k 1),
                        patches := (patches s)[?k := copyPatch_v10 (emptyPatch s) (patches s ! ?k)]\<rparr>"
    using assms(2) Inr by (simp add: clear_v10_def)
  ultimately show ?thesis using bank_update_v10 [OF assms(1)] by simp
qed

lemma store_v10_lengths:
  assumes "stateOK_v10 s" "store_v10 s = Inr s'"
  shows "stateOK_v10 s'"
proof (cases "shiftCount (candidatePatchNumber s)")
  case (Inl e)
  then show ?thesis using assms(2) by (simp add: store_v10_def)
next
  case (Inr k)
  let ?k = "nat (candidatePatchNumber s)"
  have "lengthsInRange (copyPatch_v10 (currentPatch s) (patches s ! ?k))"
    using assms(1) bank_nth(1) [of s]
    by (intro copyPatch_v10_range) (simp_all add: stateOK_v10_def lengthsOK_v10_def channelInRange_def bankOK_def)
  moreover have "s' = s\<lparr>prevProgramButtonValue := 1,
                        memoryCellsInUse := memoryCellsInUse s OR push_bit k 1,
                        patches := (patches s)[?k := copyPatch_v10 (currentPatch s) (patches s ! ?k)]\<rparr>"
    using assms(2) Inr by (simp add: store_v10_def)
  ultimately show ?thesis using bank_update_v10 [OF assms(1)] by simp
qed

subsection \<open>The \<^verbatim>\<open>switch\<close> and the whole pass\<close>

lemma programMode_v10_cases:
  assumes "programMode_v10 inp name s = Inr s'"
  shows "s' = recall_v10 (moveCandidate (newPosition inp) s)
       \<or> clear_v10 (moveCandidate (newPosition inp) s) = Inr s'
       \<or> store_v10 (moveCandidate (newPosition inp) s) = Inr s'
       \<or> s' = moveCandidate (newPosition inp) s"
proof (cases "prevProgramButtonValue (moveCandidate (newPosition inp) s) = 0")
  case True
  then show ?thesis
    using assms unfolding programMode_v10_def Let_def
    by (cases "name = TRIG_A"; cases "name = TRIG_B"; cases "name = TRIG_D") simp_all
next
  case False
  then have "s' = moveCandidate (newPosition inp) s"
    using assms unfolding programMode_v10_def Let_def
    by (cases "name = TRIG_A"; cases "name = TRIG_B"; cases "name = TRIG_D") simp_all
  then show ?thesis by simp
qed

lemma programMode_v10_lengths:
  assumes "stateOK_v10 s" "programMode_v10 inp name s = Inr s'"
  shows "stateOK_v10 s'"
proof -
  let ?s1 = "moveCandidate (newPosition inp) s"
  have ok1: "stateOK_v10 ?s1" using assms(1) by (rule moveCandidate_v10)
  from programMode_v10_cases [OF assms(2)]
  consider (recall) "s' = recall_v10 ?s1" | (clear) "clear_v10 ?s1 = Inr s'"
    | (store) "store_v10 ?s1 = Inr s'" | (none) "s' = ?s1"
    by blast
  then show ?thesis
  proof cases
    case recall
    then show ?thesis using recall_v10_lengths [OF ok1] by simp
  next
    case clear
    then show ?thesis by (rule clear_v10_lengths [OF ok1])
  next
    case store
    then show ?thesis by (rule store_v10_lengths [OF ok1])
  next
    case none
    then show ?thesis using ok1 by simp
  qed
qed

lemma modeSwitch_v10_cases:
  assumes "modeSwitch_v10 inp name s = Inr s'"
  obtains (len) "patternLengthMode_v10 inp s = Inr s'"
    | (num) "numPulseMode_v10 inp s = Inr s'"
    | (rot) "rotateMode_v10 inp s = Inr s'"
    | (prg) "programMode_v10 inp name s = Inr s'"
    | (none) "s' = s"
proof (cases "mode s = PATTERN_LENGTH_MODE")
  case True
  then have "modeSwitch_v10 inp name s = patternLengthMode_v10 inp s"
    by (simp add: modeSwitch_v10_def)
  then show ?thesis using assms len by simp
next
  case m1: False
  show ?thesis
  proof (cases "mode s = NUM_PULSE_MODE")
    case True
    then have "modeSwitch_v10 inp name s = numPulseMode_v10 inp s"
      by (simp add: modeSwitch_v10_def sketch_consts)
    then show ?thesis using assms num by simp
  next
    case m2: False
    show ?thesis
    proof (cases "mode s = ROTATE_MODE")
      case True
      then have "modeSwitch_v10 inp name s = rotateMode_v10 inp s"
        by (simp add: modeSwitch_v10_def sketch_consts)
      then show ?thesis using assms rot by simp
    next
      case m3: False
      show ?thesis
      proof (cases "mode s = PROGRAM_MODE")
        case True
        then have "modeSwitch_v10 inp name s = programMode_v10 inp name s"
          by (simp add: modeSwitch_v10_def sketch_consts)
        then show ?thesis using assms prg by simp
      next
        case False
        then have "modeSwitch_v10 inp name s = Inr s"
          using m1 m2 m3 by (simp add: modeSwitch_v10_def)
        then show ?thesis using assms none by simp
      qed
    qed
  qed
qed

lemma modeSwitch_v10_lengths:
  assumes "stateOK_v10 s" "modeSwitch_v10 inp name s = Inr s'"
  shows "stateOK_v10 s'"
  using assms(2)
proof (cases rule: modeSwitch_v10_cases)
  case len
  then show ?thesis by (rule patternLengthMode_v10_lengths [OF assms(1)])
next
  case num
  then show ?thesis by (rule numPulseMode_v10_lengths [OF assms(1)])
next
  case rot
  then show ?thesis by (rule rotateMode_v10_lengths [OF assms(1)])
next
  case prg
  then show ?thesis by (rule programMode_v10_lengths [OF assms(1)])
next
  case none
  then show ?thesis using assms(1) by simp
qed

lemma live_v11_range: "stateOK_v11 s \<Longrightarrow> lengthsInRange (livePatch_v11 s)"
  using bank_nth(2) [of s] by (simp add: stateOK_v11_def lengthsOK_v11_def channelInRange_def livePatch_v11_def)

lemma patches_update_v11:
  assumes "stateOK_v11 s" "lengthsInRange Q"
  shows "\<forall>P \<in> set ((patches s)[k := Q]). lengthsInRange P"
  using assms by (intro set_update_range) (simp_all add: stateOK_v11_def lengthsOK_v11_def channelInRange_def bankOK_def)

lemma edit_result_v11:
  assumes "stateOK_v11 s" "live_v11 np s r = Inr s'"
    and "\<And>P. r = Inr P \<Longrightarrow> lengthsInRange P"
  shows "stateOK_v11 s'"
proof -
  from assms(2) obtain P where P: "r = Inr P"
      "s' = s\<lparr>patches := (patches s)[nat (chosenPatchNumber s) := P], oldPosition := np\<rparr>"
    by (rule live_v11_result)
  have "\<forall>Q \<in> set ((patches s)[nat (chosenPatchNumber s) := P]). lengthsInRange Q"
    using patches_update_v11 [OF assms(1) assms(3) [OF P(1)]] .
  then show ?thesis using P(2) assms(1) by (simp add: stateOK_v11_def lengthsOK_v11_def channelInRange_def bankOK_def)
qed

lemma same_length_range:
  "patternLength P = patternLength Q \<Longrightarrow> lengthsInRange Q \<Longrightarrow> lengthsInRange P"
  by (simp add: lengthsInRange_def)

lemma patternLengthMode_v11_lengths:
  assumes "stateOK_v11 s" "patternLengthMode_v11 inp s = Inr s'"
  shows "stateOK_v11 s'"
proof -
  let ?c = "nat (selectedTriggerChannel s)" and ?np = "newPosition inp"
  note live = live_v11_range [OF assms(1)]
  consider (tempo) "escapeButton inp \<noteq> 0"
    | (up) "escapeButton inp = 0" "?np < oldPosition s - 3"
    | (down) "escapeButton inp = 0" "\<not> ?np < oldPosition s - 3" "?np > oldPosition s + 3"
    | (none) "escapeButton inp = 0" "\<not> ?np < oldPosition s - 3" "\<not> ?np > oldPosition s + 3"
    by blast
  then show ?thesis
  proof cases
    case tempo
    then have "s' = tempoEdit ?np s" using assms(2) by (simp add: patternLengthMode_v11_def bindE_channelIndex)
    then show ?thesis using assms(1) by (simp add: tempoEdit_v11)
  next
    case up
    then have "live_v11 ?np s (increaseLength (livePatch_v11 s) ?c) = Inr s'"
      using assms(2) by (simp add: patternLengthMode_v11_def bindE_channelIndex)
    then show ?thesis
      by (rule edit_result_v11 [OF assms(1)]) (rule increaseLength_range [OF _ live])
  next
    case down
    then have "live_v11 ?np s (decreaseLength (livePatch_v11 s) ?c) = Inr s'"
      using assms(2) by (simp add: patternLengthMode_v11_def bindE_channelIndex)
    then show ?thesis
      by (rule edit_result_v11 [OF assms(1)]) (rule decreaseLength_range [OF _ live])
  next
    case none
    then have "s' = s" using assms(2) by (simp add: patternLengthMode_v11_def bindE_channelIndex)
    then show ?thesis using assms(1) by simp
  qed
qed

lemma numPulseMode_v11_lengths:
  assumes "stateOK_v11 s" "numPulseMode_v11 inp s = Inr s'"
  shows "stateOK_v11 s'"
proof -
  let ?c = "nat (selectedTriggerChannel s)" and ?np = "newPosition inp"
  note live = live_v11_range [OF assms(1)]
  consider (tempo) "escapeButton inp \<noteq> 0"
    | (up) "escapeButton inp = 0" "?np < oldPosition s - 3"
    | (down) "escapeButton inp = 0" "\<not> ?np < oldPosition s - 3" "?np > oldPosition s + 3"
    | (none) "escapeButton inp = 0" "\<not> ?np < oldPosition s - 3" "\<not> ?np > oldPosition s + 3"
    by blast
  then show ?thesis
  proof cases
    case tempo
    then have "s' = tempoEdit ?np s" using assms(2) by (simp add: numPulseMode_v11_def bindE_channelIndex)
    then show ?thesis using assms(1) by (simp add: tempoEdit_v11)
  next
    case up
    then have "live_v11 ?np s (increasePulses (livePatch_v11 s) ?c) = Inr s'"
      using assms(2) by (simp add: numPulseMode_v11_def bindE_channelIndex)
    then show ?thesis
      by (rule edit_result_v11 [OF assms(1)])
         (rule same_length_range [OF pulses_edit_length(1) live])
  next
    case down
    then have "live_v11 ?np s (decreasePulses (livePatch_v11 s) ?c) = Inr s'"
      using assms(2) by (simp add: numPulseMode_v11_def bindE_channelIndex)
    then show ?thesis
      by (rule edit_result_v11 [OF assms(1)])
         (rule same_length_range [OF pulses_edit_length(2) live])
  next
    case none
    then have "s' = s" using assms(2) by (simp add: numPulseMode_v11_def bindE_channelIndex)
    then show ?thesis using assms(1) by simp
  qed
qed

lemma rotateMode_v11_lengths:
  assumes "stateOK_v11 s" "rotateMode_v11 inp s = Inr s'"
  shows "stateOK_v11 s'"
proof -
  let ?c = "nat (selectedTriggerChannel s)" and ?np = "newPosition inp"
  note live = live_v11_range [OF assms(1)]
  consider (tempo) "escapeButton inp \<noteq> 0"
    | (right) "escapeButton inp = 0" "?np > oldPosition s + 3"
    | (left) "escapeButton inp = 0" "\<not> ?np > oldPosition s + 3" "?np < oldPosition s - 3"
    | (none) "escapeButton inp = 0" "\<not> ?np > oldPosition s + 3" "\<not> ?np < oldPosition s - 3"
    by blast
  then show ?thesis
  proof cases
    case tempo
    then have "s' = tempoEdit ?np s" using assms(2) by (simp add: rotateMode_v11_def bindE_channelIndex)
    then show ?thesis using assms(1) by (simp add: tempoEdit_v11)
  next
    case right
    then have "live_v11 ?np s (rotateRightChannel (livePatch_v11 s) ?c) = Inr s'"
      using assms(2) by (simp add: rotateMode_v11_def bindE_channelIndex)
    then show ?thesis
      by (rule edit_result_v11 [OF assms(1)])
         (rule same_length_range [OF rotate_channel_length(2) live])
  next
    case left
    then have "live_v11 ?np s (rotateLeftChannel (livePatch_v11 s) ?c) = Inr s'"
      using assms(2) by (simp add: rotateMode_v11_def bindE_channelIndex)
    then show ?thesis
      by (rule edit_result_v11 [OF assms(1)])
         (rule same_length_range [OF rotate_channel_length(1) live])
  next
    case none
    then have "s' = s" using assms(2) by (simp add: rotateMode_v11_def bindE_channelIndex)
    then show ?thesis using assms(1) by simp
  qed
qed

lemma moveCandidate_v11: "stateOK_v11 s \<Longrightarrow> stateOK_v11 (moveCandidate np s)"
  using moveCandidate_bank [of s np]
  by (simp add: stateOK_v11_def lengthsOK_v11_def channelInRange_def)
     (simp add: moveCandidate_def Let_def)

lemma recall_v11_lengths:
  assumes "stateOK_v11 s" "recall_v11 s = Inr s'"
  shows "stateOK_v11 s'"
proof (cases "shiftCount (candidatePatchNumber s)")
  case (Inl e)
  then show ?thesis using assms(2) by (simp add: recall_v11_def)
next
  case (Inr k)
  let ?k = "nat (candidatePatchNumber s)"
  let ?ps = "if memoryCellsInUse s AND push_bit k 1 = 0
             then (patches s)[?k := createEmptyPatch_v11 (patches s ! ?k)] else patches s"
  have "lengthsInRange (createEmptyPatch_v11 (patches s ! ?k))"
    using assms(1) bank_nth(1) [of s]
    by (intro createEmptyPatch_v11_range) (simp add: stateOK_v11_def lengthsOK_v11_def channelInRange_def)
  from patches_update_v11 [OF assms(1) this, of ?k]
  have "\<forall>P \<in> set ?ps. lengthsInRange P" "length ?ps = 16"
    using assms(1) by (simp_all add: stateOK_v11_def lengthsOK_v11_def channelInRange_def bankOK_def)
  moreover have "s' = s\<lparr>prevProgramButtonValue := 1,
                        chosenPatchNumber := candidatePatchNumber s,
                        patches := ?ps, step := resetSteps (step s)\<rparr>"
    using assms(2) Inr by (simp add: recall_v11_def Let_def)
  ultimately show ?thesis using assms(1) by (simp add: stateOK_v11_def lengthsOK_v11_def channelInRange_def bankOK_def)
qed

lemma clear_v11_lengths:
  assumes "stateOK_v11 s" "clear_v11 s = Inr s'"
  shows "stateOK_v11 s'"
proof (cases "shiftCount (candidatePatchNumber s)")
  case (Inl e)
  then show ?thesis using assms(2) by (simp add: clear_v11_def)
next
  case (Inr k)
  then have "s' = s\<lparr>prevProgramButtonValue := 1,
                     memoryCellsInUse := memoryCellsInUse s AND NOT (push_bit k 1)\<rparr>"
    using assms(2) by (simp add: clear_v11_def)
  then show ?thesis using assms(1) by (simp add: stateOK_v11_def lengthsOK_v11_def channelInRange_def bankOK_def)
qed

lemma copyPatch_v11_length: "length (copyPatch_v11 ps a b) = length ps"
  by (simp add: copyPatch_v11_def Let_def)

lemma store_v11_lengths:
  assumes "stateOK_v11 s" "store_v11 s = Inr s'"
  shows "stateOK_v11 s'"
proof (cases "shiftCount (candidatePatchNumber s)")
  case (Inl e)
  then show ?thesis using assms(2) by (simp add: store_v11_def)
next
  case (Inr k)
  let ?ps = "copyPatch_v11 (patches s) (chosenPatchNumber s) (candidatePatchNumber s)"
  have "nat (candidatePatchNumber s) < 16" "nat (chosenPatchNumber s) < 16"
    using assms(1) unfolding stateOK_v11_def lengthsOK_v11_def channelInRange_def bankOK_def by linarith+
  then have "\<forall>P \<in> set ?ps. lengthsInRange P"
    using assms(1) by (intro copyPatch_v11_range) (simp_all add: stateOK_v11_def lengthsOK_v11_def channelInRange_def bankOK_def)
  moreover have "s' = s\<lparr>prevProgramButtonValue := 1, patches := ?ps,
                        memoryCellsInUse := memoryCellsInUse s OR push_bit k 1\<rparr>"
    using assms(2) Inr by (simp add: store_v11_def)
  ultimately show ?thesis
    using assms(1) by (simp add: stateOK_v11_def lengthsOK_v11_def channelInRange_def bankOK_def copyPatch_v11_length)
qed

lemma programMode_v11_cases:
  assumes "programMode_v11 inp name s = Inr s'"
  shows "recall_v11 (moveCandidate (newPosition inp) s) = Inr s'
       \<or> clear_v11 (moveCandidate (newPosition inp) s) = Inr s'
       \<or> store_v11 (moveCandidate (newPosition inp) s) = Inr s'
       \<or> s' = moveCandidate (newPosition inp) s"
proof (cases "prevProgramButtonValue (moveCandidate (newPosition inp) s) = 0")
  case True
  then show ?thesis
    using assms unfolding programMode_v11_def Let_def
    by (cases "name = TRIG_A"; cases "name = TRIG_B"; cases "name = TRIG_D") simp_all
next
  case False
  then have "s' = moveCandidate (newPosition inp) s"
    using assms unfolding programMode_v11_def Let_def
    by (cases "name = TRIG_A"; cases "name = TRIG_B"; cases "name = TRIG_D") simp_all
  then show ?thesis by simp
qed

lemma programMode_v11_lengths:
  assumes "stateOK_v11 s" "programMode_v11 inp name s = Inr s'"
  shows "stateOK_v11 s'"
proof -
  let ?s1 = "moveCandidate (newPosition inp) s"
  have ok1: "stateOK_v11 ?s1" using assms(1) by (rule moveCandidate_v11)
  from programMode_v11_cases [OF assms(2)]
  consider (recall) "recall_v11 ?s1 = Inr s'" | (clear) "clear_v11 ?s1 = Inr s'"
    | (store) "store_v11 ?s1 = Inr s'" | (none) "s' = ?s1"
    by blast
  then show ?thesis
  proof cases
    case recall
    then show ?thesis by (rule recall_v11_lengths [OF ok1])
  next
    case clear
    then show ?thesis by (rule clear_v11_lengths [OF ok1])
  next
    case store
    then show ?thesis by (rule store_v11_lengths [OF ok1])
  next
    case none
    then show ?thesis using ok1 by simp
  qed
qed

lemma modeSwitch_v11_cases:
  assumes "modeSwitch_v11 allowLength inp name s = Inr s'"
  obtains (len) "patternLengthMode_v11 inp s = Inr s'"
    | (num) "numPulseMode_v11 inp s = Inr s'"
    | (rot) "rotateMode_v11 inp s = Inr s'"
    | (prg) "programMode_v11 inp name s = Inr s'"
    | (none) "s' = s"
proof (cases "allowLength \<and> mode s = PATTERN_LENGTH_MODE")
  case True
  then have "modeSwitch_v11 allowLength inp name s = patternLengthMode_v11 inp s"
    by (simp add: modeSwitch_v11_def)
  then show ?thesis using assms len by simp
next
  case m1: False
  show ?thesis
  proof (cases "mode s = NUM_PULSE_MODE")
    case True
    then have "modeSwitch_v11 allowLength inp name s = numPulseMode_v11 inp s"
      unfolding modeSwitch_v11_def if_not_P [OF m1] by (simp add: sketch_consts)
    then show ?thesis using assms num by simp
  next
    case m2: False
    show ?thesis
    proof (cases "mode s = ROTATE_MODE")
      case True
      then have "modeSwitch_v11 allowLength inp name s = rotateMode_v11 inp s"
        using m2 unfolding modeSwitch_v11_def if_not_P [OF m1] by (simp add: sketch_consts)
      then show ?thesis using assms rot by simp
    next
      case m3: False
      show ?thesis
      proof (cases "mode s = PROGRAM_MODE")
        case True
        then have "modeSwitch_v11 allowLength inp name s = programMode_v11 inp name s"
          using m2 m3 unfolding modeSwitch_v11_def if_not_P [OF m1]
          by (simp add: sketch_consts)
        then show ?thesis using assms prg by simp
      next
        case False
        then have "modeSwitch_v11 allowLength inp name s = Inr s"
          using m2 m3 unfolding modeSwitch_v11_def if_not_P [OF m1]
          by (simp add: sketch_consts)
        then show ?thesis using assms none by simp
      qed
    qed
  qed
qed

lemma modeSwitch_v11_lengths:
  assumes "stateOK_v11 s" "modeSwitch_v11 allowLength inp name s = Inr s'"
  shows "stateOK_v11 s'"
  using assms(2)
proof (cases rule: modeSwitch_v11_cases)
  case len
  then show ?thesis by (rule patternLengthMode_v11_lengths [OF assms(1)])
next
  case num
  then show ?thesis by (rule numPulseMode_v11_lengths [OF assms(1)])
next
  case rot
  then show ?thesis by (rule rotateMode_v11_lengths [OF assms(1)])
next
  case prg
  then show ?thesis by (rule programMode_v11_lengths [OF assms(1)])
next
  case none
  then show ?thesis using assms(1) by simp
qed

lemma checkButtons_channel:
  assumes "buttonInRange inp" "channelInRange s"
  shows "channelInRange (checkButtons inp s)"
proof (cases "pressedButton inp")
  case None
  then show ?thesis using assms(2) by (simp add: checkButtons_def)
next
  case (Some b)
  then have "0 \<le> b" "b \<le> 3"
    using assms(1) by (auto simp add: buttonInRange_def sketch_consts)
  then show ?thesis
    using Some assms(2) by (simp add: checkButtons_def channelInRange_def)
qed

lemma checkButtons_frame:
  "patches (checkButtons inp s) = patches s"
  "emptyPatch (checkButtons inp s) = emptyPatch s"
  "candidatePatchNumber (checkButtons inp s) = candidatePatchNumber s"
  "chosenPatchNumber (checkButtons inp s) = chosenPatchNumber s"
  by (simp_all add: checkButtons_def split: option.splits)

lemma readButtons_channel:
  assumes "buttonInRange inp" "channelInRange s"
  shows "channelInRange (snd (readButtons check inp s))"
proof (cases "mode s = PROGRAM_MODE")
  case True
  then show ?thesis
    using assms(2) by (simp add: readButtons_def split_def Let_def channelInRange_def)
next
  case False
  then show ?thesis
    using checkButtons_channel [OF assms] by (simp add: readButtons_def)
qed

lemma readButtons_bank: "bankOK (snd (readButtons check inp s)) = bankOK s"
  by (simp add: readButtons_def bankOK_def checkButtons_frame split_def Let_def)

lemma readButtons_v10:
  assumes "buttonInRange inp" "stateOK_v10 s"
  shows "stateOK_v10 (snd (readButtons check inp s))"
proof -
  have "currentPatch (snd (readButtons check inp s)) = currentPatch s"
    by (simp add: readButtons_def checkButtons_def split_def Let_def split: option.splits)
  then show ?thesis
    using assms readButtons_channel [of inp s check]
    by (simp add: stateOK_v10_def lengthsOK_v10_def readButtons_bank)
qed

lemma readButtons_v11:
  assumes "buttonInRange inp" "stateOK_v11 s"
  shows "stateOK_v11 (snd (readButtons check inp s))"
  using assms readButtons_channel [of inp s check]
  by (simp add: stateOK_v11_def lengthsOK_v11_def readButtons_bank)

lemma modePress_v10:
  "stateOK_v10 (snd (modePress firstMode inp s)) = stateOK_v10 s"
  by (simp add: modePress_def stateOK_v10_def lengthsOK_v10_def channelInRange_def bankOK_def Let_def)

lemma modePress_v11:
  "stateOK_v11 (snd (modePress firstMode inp s)) = stateOK_v11 s"
  by (simp add: modePress_def stateOK_v11_def lengthsOK_v11_def channelInRange_def bankOK_def Let_def)

lemma inputs_v10:
  "stateOK_v10 (resetInput inp (rememberInputs inp s)) = stateOK_v10 s"
  by (simp add: resetInput_def rememberInputs_def stateOK_v10_def lengthsOK_v10_def channelInRange_def bankOK_def Let_def)

lemma inputs_v11:
  "stateOK_v11 (resetInput inp (rememberInputs inp s)) = stateOK_v11 s"
  by (simp add: resetInput_def rememberInputs_def stateOK_v11_def lengthsOK_v11_def channelInRange_def bankOK_def Let_def)

lemma clock_trigger_v10:
  "stateOK_v10 (trigger t inp lens (snd (clock low inp s))) = stateOK_v10 s"
  by (simp add: trigger_def clock_def stateOK_v10_def lengthsOK_v10_def channelInRange_def bankOK_def)

lemma clock_trigger_v11:
  "stateOK_v11 (trigger t inp lens (snd (clock low inp s))) = stateOK_v11 s"
  by (simp add: trigger_def clock_def stateOK_v11_def lengthsOK_v11_def channelInRange_def bankOK_def)

lemma muteButtons_v11_lengths:
  assumes "stateOK_v11 s"
  shows "stateOK_v11 (muteButtons_v11 inp s)"
proof -
  have "\<forall>P \<in> set ((patches s)[nat (chosenPatchNumber s) :=
            toggleMute b (patches s ! nat (chosenPatchNumber s))]). lengthsInRange P" for b
    using bank_nth(2) [of s] assms
    by (intro patches_update_v11) (simp_all add: toggleMute_range stateOK_v11_def lengthsOK_v11_def channelInRange_def)
  then show ?thesis
    using assms
    by (simp add: muteButtons_v11_def Let_def stateOK_v11_def lengthsOK_v11_def channelInRange_def bankOK_def split: option.splits)
qed

lemma loop_v10_lengths:
  assumes "stateOK_v10 s" "loop_v10 inp s = Inr s'" "buttonInRange inp"
  shows "stateOK_v10 s'"
proof -
  define name where "name = fst (readButtons checkProgramButtons_v10 inp s)"
  define s1 where "s1 = snd (readButtons checkProgramButtons_v10 inp s)"
  define np where "np = fst (modePress 1 inp s1)"
  define s2 where "s2 = snd (modePress 1 inp s1)"
  have ok2: "stateOK_v10 s2"
    using readButtons_v10 [OF assms(3,1)] by (simp add: s2_def s1_def modePress_v10)
  have "loop_v10 inp s =
          bindE (functionInputs inp s2 (currentPatch s2)) (\<lambda>P.
          bindE (modeSwitch_v10 (inp\<lparr>newPosition := np\<rparr>) name
                   (resetInput inp (rememberInputs inp (s2\<lparr>currentPatch := P\<rparr>)))) (\<lambda>s3.
            Inr (trigger (fst (clock 128 inp s3)) inp
                   (patternLength (currentPatch (snd (clock 128 inp s3))))
                   (snd (clock 128 inp s3)))))"
    by (simp add: loop_v10_def split_def Let_def name_def s1_def np_def s2_def)
  with assms(2) obtain P where P: "functionInputs inp s2 (currentPatch s2) = Inr P"
    and rest: "bindE (modeSwitch_v10 (inp\<lparr>newPosition := np\<rparr>) name
                   (resetInput inp (rememberInputs inp (s2\<lparr>currentPatch := P\<rparr>)))) (\<lambda>s3.
            Inr (trigger (fst (clock 128 inp s3)) inp
                   (patternLength (currentPatch (snd (clock 128 inp s3))))
                   (snd (clock 128 inp s3)))) = Inr s'"
    by (auto elim: bindE_InrE)
  from rest obtain s3 where
    s3: "modeSwitch_v10 (inp\<lparr>newPosition := np\<rparr>) name
           (resetInput inp (rememberInputs inp (s2\<lparr>currentPatch := P\<rparr>))) = Inr s3"
    and s': "s' = trigger (fst (clock 128 inp s3)) inp
                    (patternLength (currentPatch (snd (clock 128 inp s3))))
                    (snd (clock 128 inp s3))"
    by (auto elim: bindE_InrE)
  have "lengthsInRange P"
    using functionInputs_length [OF P] current_v10 [OF ok2] by (simp add: lengthsInRange_def)
  then have "stateOK_v10 (s2\<lparr>currentPatch := P\<rparr>)"
    using ok2 by (simp add: stateOK_v10_def lengthsOK_v10_def channelInRange_def bankOK_def)
  then have "stateOK_v10 (resetInput inp (rememberInputs inp (s2\<lparr>currentPatch := P\<rparr>)))"
    by (simp add: inputs_v10)
  then have "stateOK_v10 s3" using s3 by (rule modeSwitch_v10_lengths)
  then show ?thesis using s' by (simp add: clock_trigger_v10)
qed

lemma loop_v11_lengths:
  assumes "stateOK_v11 s" "loop_v11 allowLength inp s = Inr s'" "buttonInRange inp"
  shows "stateOK_v11 s'"
proof -
  define first where "first = (if allowLength then PATTERN_LENGTH_MODE else NUM_PULSE_MODE)"
  define name where "name = fst (readButtons checkProgramButtons_v11 inp s)"
  define s1 where "s1 = muteButtons_v11 inp (snd (readButtons checkProgramButtons_v11 inp s))"
  define np where "np = fst (modePress first inp s1)"
  define s2 where "s2 = snd (modePress first inp s1)"
  have ok2: "stateOK_v11 s2"
    using muteButtons_v11_lengths [OF readButtons_v11 [OF assms(3,1)]]
    by (simp add: s2_def s1_def modePress_v11)
  have "loop_v11 allowLength inp s =
          bindE (functionInputs inp s2 (livePatch_v11 s2)) (\<lambda>P.
          bindE (modeSwitch_v11 allowLength (inp\<lparr>newPosition := np\<rparr>) name
                   (resetInput inp (rememberInputs inp
                      (s2\<lparr>patches := (patches s2)[nat (chosenPatchNumber s2) := P]\<rparr>)))) (\<lambda>s3.
            Inr (trigger (fst (clock 300 inp s3)) inp
                   (patternLength (livePatch_v11 (snd (clock 300 inp s3))))
                   (snd (clock 300 inp s3)))))"
    by (simp add: loop_v11_def split_def Let_def name_def s1_def np_def s2_def first_def)
  with assms(2) obtain P where P: "functionInputs inp s2 (livePatch_v11 s2) = Inr P"
    and rest: "bindE (modeSwitch_v11 allowLength (inp\<lparr>newPosition := np\<rparr>) name
                   (resetInput inp (rememberInputs inp
                      (s2\<lparr>patches := (patches s2)[nat (chosenPatchNumber s2) := P]\<rparr>)))) (\<lambda>s3.
            Inr (trigger (fst (clock 300 inp s3)) inp
                   (patternLength (livePatch_v11 (snd (clock 300 inp s3))))
                   (snd (clock 300 inp s3)))) = Inr s'"
    by (auto elim: bindE_InrE)
  from rest obtain s3 where
    s3: "modeSwitch_v11 allowLength (inp\<lparr>newPosition := np\<rparr>) name
           (resetInput inp (rememberInputs inp
              (s2\<lparr>patches := (patches s2)[nat (chosenPatchNumber s2) := P]\<rparr>))) = Inr s3"
    and s': "s' = trigger (fst (clock 300 inp s3)) inp
                    (patternLength (livePatch_v11 (snd (clock 300 inp s3))))
                    (snd (clock 300 inp s3))"
    by (auto elim: bindE_InrE)
  have "lengthsInRange P"
    using functionInputs_length [OF P] live_v11_range [OF ok2] by (simp add: lengthsInRange_def)
  then have "\<forall>Q \<in> set ((patches s2)[nat (chosenPatchNumber s2) := P]). lengthsInRange Q"
    by (rule patches_update_v11 [OF ok2])
  then have "stateOK_v11 (s2\<lparr>patches := (patches s2)[nat (chosenPatchNumber s2) := P]\<rparr>)"
    using ok2 by (simp add: stateOK_v11_def lengthsOK_v11_def channelInRange_def bankOK_def)
  then have "stateOK_v11 (resetInput inp (rememberInputs inp
               (s2\<lparr>patches := (patches s2)[nat (chosenPatchNumber s2) := P]\<rparr>)))"
    by (simp add: inputs_v11)
  then have "stateOK_v11 s3" using s3 by (rule modeSwitch_v11_lengths)
  then show ?thesis using s' by (simp add: clock_trigger_v11)
qed

lemma run_invariant_inputs:
  assumes "I s" "run f inps s = Inr s'" "\<forall>inp \<in> set inps. Q inp"
    and step: "\<And>inp s s'. I s \<Longrightarrow> f inp s = Inr s' \<Longrightarrow> Q inp \<Longrightarrow> I s'"
  shows "I s'"
  using assms(1,2,3)
proof (induction inps arbitrary: s)
  case Nil
  then show ?case by simp
next
  case (Cons inp inps)
  from Cons.prems(2) obtain s1 where s1: "f inp s = Inr s1" "run f inps s1 = Inr s'"
    by (auto elim: bindE_InrE)
  have "I s1" using Cons.prems(1) s1(1) Cons.prems(3) by (intro step [of s inp s1]) simp_all
  then show ?case using s1(2) Cons.prems(3) by (intro Cons.IH [of s1]) simp_all
qed

lemma length_edit_value:
  assumes "c < length (patternLength P)"
  shows "increaseLength P c = Inr P' \<Longrightarrow>
           patternLength P' ! c = min 16 (patternLength P ! c + 1)"
    and "decreaseLength P c = Inr P' \<Longrightarrow>
           patternLength P' ! c = max 0 (patternLength P ! c - 1)"
proof -
  assume "increaseLength P c = Inr P'"
  then show "patternLength P' ! c = min 16 (patternLength P ! c + 1)"
    using assms
      storePattern_length [of "P\<lparr>patternLength := (patternLength P)
        [c := if patternLength P ! c + 1 > NUM_NEOP_LEDS then NUM_NEOP_LEDS
              else patternLength P ! c + 1]\<rparr>" c _ P']
    by (simp add: increaseLength_def Let_def NUM_NEOP_LEDS_def min_def)
next
  assume "decreaseLength P c = Inr P'"
  then show "patternLength P' ! c = max 0 (patternLength P ! c - 1)"
    using assms
      storePattern_length [of "P\<lparr>patternLength := (patternLength P)
        [c := if patternLength P ! c - 1 < 0 then 0 else patternLength P ! c - 1]\<rparr>" c _ P']
    by (simp add: decreaseLength_def Let_def max_def)
qed

subsection \<open>Passes that return\<close>

lemma euclid_loop_defined:
  "0 \<le> i \<Longrightarrow> len \<le> 16 \<Longrightarrow> \<not> isl (euclid_loop p len i bucket number)"
proof (induction p len i bucket number rule: euclid_loop.induct)
  case (1 p len i bucket number)
  show ?case
  proof (cases "i < len")
    case False
    then show ?thesis by (simp add: euclid_loop.simps [of p len i])
  next
    case True
    then have sc: "shiftCount i = Inr (nat i)" using "1.prems" by (simp add: shiftCount_def)
    show ?thesis
    proof (cases "bucket + p \<ge> len")
      case fire: True
      have "\<not> isl (euclid_loop p len (i + 1) (bucket + p - len) (number OR push_bit (nat i) 1))"
        using "1.IH"(1) [OF True fire sc] "1.prems" by simp
      then show ?thesis using True fire sc by (simp add: euclid_loop.simps [of p len i])
    next
      case nofire: False
      have "\<not> isl (euclid_loop p len (i + 1) (bucket + p) number)"
        using "1.IH"(2) [OF True nofire] "1.prems" by simp
      then show ?thesis using True nofire by (simp add: euclid_loop.simps [of p len i])
    qed
  qed
qed

lemma euclid_defined: "patternLength P ! c \<le> 16 \<Longrightarrow> \<not> isl (euclid P c)"
  by (simp add: euclid_def euclid_loop_defined)

lemma storePattern_defined: "\<not> isl r \<Longrightarrow> \<not> isl (storePattern P c r)"
  by (cases r) (simp_all add: storePattern_def)

lemma length_edits_defined:
  assumes "patternLength P ! c \<le> 16"
  shows "\<not> isl (increaseLength P c)" and "\<not> isl (decreaseLength P c)"
    and "\<not> isl (increasePulses P c)" and "\<not> isl (decreasePulses P c)"
proof -
  show "\<not> isl (increaseLength P c)"
    unfolding increaseLength_def Let_def
    using assms
    by (intro storePattern_defined euclid_defined) (simp add: nth_update_total NUM_NEOP_LEDS_def)
  show "\<not> isl (decreaseLength P c)"
    unfolding decreaseLength_def Let_def
    using assms
    by (intro storePattern_defined euclid_defined) (simp add: nth_update_total)
  show "\<not> isl (increasePulses P c)"
    unfolding increasePulses_def Let_def
    using assms
    by (intro storePattern_defined euclid_defined) simp
  show "\<not> isl (decreasePulses P c)"
    unfolding decreasePulses_def Let_def
    using assms
    by (intro storePattern_defined euclid_defined) simp
qed

lemma rotate_channel_defined:
  assumes "1 \<le> patternLength P ! c" "patternLength P ! c \<le> 16"
  shows "\<not> isl (rotateLeftChannel P c)" and "\<not> isl (rotateRightChannel P c)"
  using shiftCount_ok [OF assms]
  by (simp_all add: rotateLeftChannel_def rotateRightChannel_def rotateLeft_def rotateRight_def
      storePattern_def Let_def)

lemma bindE_defined:
  assumes "\<not> isl m" "\<And>x. m = Inr x \<Longrightarrow> \<not> isl (f x)"
  shows "\<not> isl (bindE m f)"
  using assms by (cases m) (simp_all add: bindE_def)

lemma functionInput_defined:
  assumes "lengthsInRange P" "lengthsPositive P" "nat ch < 4"
  shows "\<not> isl (functionInput fIn prevF ch P)"
  using assms rotate_channel_defined(1) [of P "nat ch"]
  by (simp add: functionInput_def lengthsInRange_def lengthsPositive_def)

lemma functionInputs_defined:
  assumes "lengthsInRange P" "lengthsPositive P"
  shows "\<not> isl (functionInputs inp s P)"
proof -
  have step: "\<not> isl (functionInput fIn prevF ch Q)"
    if "patternLength Q = patternLength P" "nat ch < 4" for fIn prevF ch and Q :: "'a Patch_scheme"
    using that assms by (intro functionInput_defined) (simp_all add: lengthsInRange_def lengthsPositive_def)
  have keep: "patternLength Q' = patternLength P"
    if "functionInput fIn prevF ch Q = Inr Q'" "patternLength Q = patternLength P"
    for fIn prevF ch and Q Q' :: "'a Patch_scheme"
    using functionInput_length [OF that(1)] that(2) by simp
  show ?thesis
    unfolding functionInputs_def
  proof (rule bindE_defined)
    show "\<not> isl (functionInput (f1In inp) (prevF1 s) TRIG_D P)"
      by (rule step) (simp_all add: TRIG_D_def)
  next
    fix P1 assume "functionInput (f1In inp) (prevF1 s) TRIG_D P = Inr P1"
    then have l1: "patternLength P1 = patternLength P" by (rule keep) simp
    show "\<not> isl (bindE (functionInput (f2In inp) (prevF2 s) TRIG_C P1) (\<lambda>P2.
            bindE (functionInput (f3In inp) (prevF3 s) TRIG_B P2) (\<lambda>P3.
            functionInput (f4In inp) (prevF4 s) TRIG_A P3)))"
    proof (rule bindE_defined)
      show "\<not> isl (functionInput (f2In inp) (prevF2 s) TRIG_C P1)"
        using l1 by (rule step) (simp add: TRIG_C_def)
    next
      fix P2 assume "functionInput (f2In inp) (prevF2 s) TRIG_C P1 = Inr P2"
      then have l2: "patternLength P2 = patternLength P" using l1 by (rule keep)
      show "\<not> isl (bindE (functionInput (f3In inp) (prevF3 s) TRIG_B P2) (\<lambda>P3.
              functionInput (f4In inp) (prevF4 s) TRIG_A P3))"
      proof (rule bindE_defined)
        show "\<not> isl (functionInput (f3In inp) (prevF3 s) TRIG_B P2)"
          using l2 by (rule step) (simp add: TRIG_B_def)
      next
        fix P3 assume "functionInput (f3In inp) (prevF3 s) TRIG_B P2 = Inr P3"
        then have l3: "patternLength P3 = patternLength P" using l2 by (rule keep)
        show "\<not> isl (functionInput (f4In inp) (prevF4 s) TRIG_A P3)"
          using l3 by (rule step) (simp add: TRIG_A_def)
      qed
    qed
  qed
qed

lemma live_defined:
  "\<not> isl r \<Longrightarrow> \<not> isl (restart_v10 (live_v10 np s r))"
  "\<not> isl r \<Longrightarrow> \<not> isl (live_v10 np s r)"
  by (cases r; simp add: restart_v10_def live_v10_def)+

lemma live_v11_defined: "\<not> isl r \<Longrightarrow> \<not> isl (live_v11 np s r)"
  by (cases r) (simp_all add: live_v11_def)

lemma channelIndex_ok:
  assumes "channelInRange s"
  shows "channelIndex (selectedTriggerChannel s) = Inr (nat (selectedTriggerChannel s))"
    and "nat (selectedTriggerChannel s) < 4"
proof -
  have "0 \<le> selectedTriggerChannel s" "selectedTriggerChannel s < 4"
    using assms by (simp_all add: channelInRange_def)
  then show "channelIndex (selectedTriggerChannel s) = Inr (nat (selectedTriggerChannel s))"
    and "nat (selectedTriggerChannel s) < 4"
    by (simp_all add: channelIndex_def)
qed

lemma channel_length:
  assumes "channelInRange s" "lengthsInRange P"
  shows "0 \<le> patternLength P ! nat (selectedTriggerChannel s)"
    and "patternLength P ! nat (selectedTriggerChannel s) \<le> 16"
  using assms channelIndex_ok(2) [OF assms(1)] by (simp_all add: lengthsInRange_def)

lemma bindE_Inr_simp: "bindE (Inr x) f = f x"
  by (simp add: bindE_def)

lemma patternLengthMode_v10_defined:
  assumes "channelInRange s" "lengthsInRange (currentPatch s)"
  shows "\<not> isl (patternLengthMode_v10 inp s)"
  using length_edits_defined(1,2) [OF channel_length(2) [OF assms]]
  by (simp add: patternLengthMode_v10_def channelIndex_ok(1) [OF assms(1)] bindE_Inr_simp
      live_defined)

lemma numPulseMode_v10_defined:
  assumes "channelInRange s" "lengthsInRange (currentPatch s)"
  shows "\<not> isl (numPulseMode_v10 inp s)"
  using length_edits_defined(3,4) [OF channel_length(2) [OF assms]]
  by (simp add: numPulseMode_v10_def channelIndex_ok(1) [OF assms(1)] bindE_Inr_simp
      live_defined)

lemma channel_positive:
  assumes "channelInRange s" "lengthsPositive P"
  shows "1 \<le> patternLength P ! nat (selectedTriggerChannel s)"
  using assms channelIndex_ok(2) [OF assms(1)] by (simp add: lengthsPositive_def)

lemma rotateMode_v10_defined:
  assumes "channelInRange s" "lengthsInRange (currentPatch s)" "lengthsPositive (currentPatch s)"
  shows "\<not> isl (rotateMode_v10 inp s)"
  using rotate_channel_defined [OF channel_positive [OF assms(1,3)] channel_length(2) [OF assms(1,2)]]
  by (simp add: rotateMode_v10_def channelIndex_ok(1) [OF assms(1)] bindE_Inr_simp
      live_defined)

lemma patternLengthMode_v11_defined:
  assumes "channelInRange s" "lengthsInRange (livePatch_v11 s)"
  shows "\<not> isl (patternLengthMode_v11 inp s)"
  using length_edits_defined(1,2) [OF channel_length(2) [OF assms]]
  by (simp add: patternLengthMode_v11_def channelIndex_ok(1) [OF assms(1)] bindE_Inr_simp
      live_v11_defined)

lemma numPulseMode_v11_defined:
  assumes "channelInRange s" "lengthsInRange (livePatch_v11 s)"
  shows "\<not> isl (numPulseMode_v11 inp s)"
  using length_edits_defined(3,4) [OF channel_length(2) [OF assms]]
  by (simp add: numPulseMode_v11_def channelIndex_ok(1) [OF assms(1)] bindE_Inr_simp
      live_v11_defined)

lemma rotateMode_v11_defined:
  assumes "channelInRange s" "lengthsInRange (livePatch_v11 s)" "lengthsPositive (livePatch_v11 s)"
  shows "\<not> isl (rotateMode_v11 inp s)"
  using rotate_channel_defined [OF channel_positive [OF assms(1,3)] channel_length(2) [OF assms(1,2)]]
  by (simp add: rotateMode_v11_def channelIndex_ok(1) [OF assms(1)] bindE_Inr_simp
      live_v11_defined)

lemma candidate_shift:
  assumes "bankOK s"
  shows "shiftCount (candidatePatchNumber (moveCandidate np s))
           = Inr (nat (candidatePatchNumber (moveCandidate np s)))"
  using moveCandidate_bank [OF assms, of np] by (simp add: bankOK_def shiftCount_def)

lemma programMode_v10_defined:
  assumes "bankOK s"
  shows "\<not> isl (programMode_v10 inp name s)"
  using candidate_shift [OF assms, of "newPosition inp"]
  by (simp add: programMode_v10_def Let_def clear_v10_def store_v10_def)

lemma programMode_v11_defined:
  assumes "bankOK s"
  shows "\<not> isl (programMode_v11 inp name s)"
  using candidate_shift [OF assms, of "newPosition inp"]
  by (simp add: programMode_v11_def Let_def recall_v11_def clear_v11_def store_v11_def)

lemma modeSwitch_v10_defined:
  assumes "stateOK_v10 s" "lengthsPositive (currentPatch s)"
  shows "\<not> isl (modeSwitch_v10 inp name s)"
proof -
  have a: "channelInRange s" "lengthsInRange (currentPatch s)" "bankOK s"
    using assms(1) by (simp_all add: stateOK_v10_def lengthsOK_v10_def)
  show ?thesis
    using patternLengthMode_v10_defined [OF a(1,2)] numPulseMode_v10_defined [OF a(1,2)]
      rotateMode_v10_defined [OF a(1,2) assms(2)] programMode_v10_defined [OF a(3)]
    by (simp add: modeSwitch_v10_def)
qed

lemma modeSwitch_v11_defined:
  assumes "stateOK_v11 s" "lengthsPositive (livePatch_v11 s)"
  shows "\<not> isl (modeSwitch_v11 allowLength inp name s)"
proof -
  have a: "channelInRange s" "bankOK s"
    using assms(1) by (simp_all add: stateOK_v11_def lengthsOK_v11_def)
  note l = live_v11_range [OF assms(1)]
  show ?thesis
    using patternLengthMode_v11_defined [OF a(1) l] numPulseMode_v11_defined [OF a(1) l]
      rotateMode_v11_defined [OF a(1) l assms(2)] programMode_v11_defined [OF a(2)]
    by (simp add: modeSwitch_v11_def)
qed


lemma bindE_Inr_defined: "\<not> isl m \<Longrightarrow> \<not> isl (bindE m (\<lambda>x. Inr (g x)))"
  by (cases m) (simp_all add: bindE_def)

lemma same_length_positive:
  "patternLength P = patternLength Q \<Longrightarrow> lengthsPositive Q \<Longrightarrow> lengthsPositive P"
  by (simp add: lengthsPositive_def)

lemma loop_v10_sections:
  "loop_v10 inp s =
     bindE (functionInputs inp (snd (modePress 1 inp (snd (readButtons checkProgramButtons_v10 inp s))))
              (currentPatch s)) (\<lambda>P.
     bindE (modeSwitch_v10
              (inp\<lparr>newPosition :=
                     fst (modePress 1 inp (snd (readButtons checkProgramButtons_v10 inp s)))\<rparr>)
              (fst (readButtons checkProgramButtons_v10 inp s))
              (resetInput inp (rememberInputs inp
                 (snd (modePress 1 inp (snd (readButtons checkProgramButtons_v10 inp s)))
                    \<lparr>currentPatch := P\<rparr>)))) (\<lambda>s3.
       Inr (trigger (fst (clock 128 inp s3)) inp
              (patternLength (currentPatch (snd (clock 128 inp s3))))
              (snd (clock 128 inp s3)))))"
proof -
  have "currentPatch (snd (modePress 1 inp (snd (readButtons checkProgramButtons_v10 inp s))))
          = currentPatch s"
    by (simp add: readButtons_def checkButtons_def modePress_def split_def Let_def
        split: option.splits)
  then show ?thesis by (simp add: loop_v10_def split_def Let_def)
qed

lemma loop_v10_defined:
  assumes "stateOK_v10 s" "buttonInRange inp" "lengthsPositive (currentPatch s)"
  shows "\<not> isl (loop_v10 inp s)"
proof -
  define s2 where "s2 = snd (modePress 1 inp (snd (readButtons checkProgramButtons_v10 inp s)))"
  have ok2: "stateOK_v10 s2"
    using readButtons_v10 [OF assms(2,1)] by (simp add: s2_def modePress_v10)
  note range = current_v10 [OF assms(1)]
  show ?thesis
    unfolding loop_v10_sections s2_def [symmetric]
  proof (rule bindE_defined)
    show "\<not> isl (functionInputs inp s2 (currentPatch s))"
      using range assms(3) by (rule functionInputs_defined)
  next
    fix P assume "functionInputs inp s2 (currentPatch s) = Inr P"
    then have len: "patternLength P = patternLength (currentPatch s)"
      by (rule functionInputs_length)
    let ?sX = "resetInput inp (rememberInputs inp (s2\<lparr>currentPatch := P\<rparr>))"
    have P: "lengthsInRange P" "lengthsPositive P"
      using len range assms(3) by (simp_all add: lengthsInRange_def lengthsPositive_def)
    then have "stateOK_v10 (s2\<lparr>currentPatch := P\<rparr>)"
      using ok2 by (simp add: stateOK_v10_def lengthsOK_v10_def bankOK_def channelInRange_def)
    then have okX: "stateOK_v10 ?sX" by (simp add: inputs_v10)
    have "currentPatch ?sX = P" by (simp add: resetInput_def rememberInputs_def Let_def)
    then have "lengthsPositive (currentPatch ?sX)" using P(2) by simp
    with okX have "\<not> isl (modeSwitch_v10 inp' name ?sX)" for inp' name
      by (rule modeSwitch_v10_defined)
    then show "\<not> isl (bindE (modeSwitch_v10
              (inp\<lparr>newPosition :=
                     fst (modePress 1 inp (snd (readButtons checkProgramButtons_v10 inp s)))\<rparr>)
              (fst (readButtons checkProgramButtons_v10 inp s)) ?sX) (\<lambda>s3.
       Inr (trigger (fst (clock 128 inp s3)) inp
              (patternLength (currentPatch (snd (clock 128 inp s3))))
              (snd (clock 128 inp s3)))))"
      by (rule bindE_Inr_defined)
  qed
qed

lemma muteButtons_v11_live:
  "patternLength (livePatch_v11 (muteButtons_v11 inp s)) = patternLength (livePatch_v11 s)"
proof -
  have "patternLength (toggleMute b P) = patternLength P" for b and P :: MutePatch
    by (simp add: toggleMute_def)
  then show ?thesis
    by (simp add: muteButtons_v11_def livePatch_v11_def Let_def nth_update_total
        split: option.splits)
qed

lemma readButtons_live:
  "livePatch_v11 (snd (readButtons check inp s)) = livePatch_v11 s"
  by (simp add: readButtons_def livePatch_v11_def checkButtons_frame split_def Let_def)

lemma modePress_live:
  "livePatch_v11 (snd (modePress firstMode inp s)) = livePatch_v11 s"
  "chosenPatchNumber (snd (modePress firstMode inp s)) = chosenPatchNumber s"
  "patches (snd (modePress firstMode inp s)) = patches s"
  by (simp_all add: modePress_def livePatch_v11_def Let_def)

lemma loop_v11_defined:
  assumes "stateOK_v11 s" "buttonInRange inp" "lengthsPositive (livePatch_v11 s)"
  shows "\<not> isl (loop_v11 allowLength inp s)"
proof -
  define first where "first = (if allowLength then PATTERN_LENGTH_MODE else NUM_PULSE_MODE)"
  define name where "name = fst (readButtons checkProgramButtons_v11 inp s)"
  define s1 where "s1 = muteButtons_v11 inp (snd (readButtons checkProgramButtons_v11 inp s))"
  define np where "np = fst (modePress first inp s1)"
  define s2 where "s2 = snd (modePress first inp s1)"
  have ok2: "stateOK_v11 s2"
    using muteButtons_v11_lengths [OF readButtons_v11 [OF assms(2,1)]]
    by (simp add: s2_def s1_def modePress_v11)
  have live2: "patternLength (livePatch_v11 s2) = patternLength (livePatch_v11 s)"
    by (simp add: s2_def s1_def modePress_live(1) muteButtons_v11_live readButtons_live)
  have range2: "lengthsInRange (livePatch_v11 s2)" using ok2 by (rule live_v11_range)
  have pos2: "lengthsPositive (livePatch_v11 s2)"
    using live2 assms(3) by (rule same_length_positive)
  have k: "nat (chosenPatchNumber s2) < length (patches s2)"
  proof -
    have "bankOK s2" using ok2 by (simp add: stateOK_v11_def lengthsOK_v11_def)
    then have "nat (chosenPatchNumber s2) < 16" "length (patches s2) = 16"
      unfolding bankOK_def by linarith+
    then show ?thesis by simp
  qed
  have eq: "loop_v11 allowLength inp s =
          bindE (functionInputs inp s2 (livePatch_v11 s2)) (\<lambda>P.
          bindE (modeSwitch_v11 allowLength (inp\<lparr>newPosition := np\<rparr>) name
                   (resetInput inp (rememberInputs inp
                      (s2\<lparr>patches := (patches s2)[nat (chosenPatchNumber s2) := P]\<rparr>)))) (\<lambda>s3.
            Inr (trigger (fst (clock 300 inp s3)) inp
                   (patternLength (livePatch_v11 (snd (clock 300 inp s3))))
                   (snd (clock 300 inp s3)))))"
    by (simp add: loop_v11_def split_def Let_def name_def s1_def np_def s2_def first_def)
  show ?thesis
    unfolding eq
  proof (rule bindE_defined)
    show "\<not> isl (functionInputs inp s2 (livePatch_v11 s2))"
      using range2 pos2 by (rule functionInputs_defined)
  next
    fix P assume "functionInputs inp s2 (livePatch_v11 s2) = Inr P"
    then have len: "patternLength P = patternLength (livePatch_v11 s2)"
      by (rule functionInputs_length)
    let ?sX = "resetInput inp (rememberInputs inp
                 (s2\<lparr>patches := (patches s2)[nat (chosenPatchNumber s2) := P]\<rparr>))"
    have P: "lengthsInRange P" "lengthsPositive P"
      using len range2 pos2 by (simp_all add: lengthsInRange_def lengthsPositive_def)
    have "\<forall>Q \<in> set ((patches s2)[nat (chosenPatchNumber s2) := P]). lengthsInRange Q"
      using P(1) by (rule patches_update_v11 [OF ok2])
    then have "stateOK_v11 (s2\<lparr>patches := (patches s2)[nat (chosenPatchNumber s2) := P]\<rparr>)"
      using ok2 by (simp add: stateOK_v11_def lengthsOK_v11_def bankOK_def channelInRange_def)
    then have okX: "stateOK_v11 ?sX" by (simp add: inputs_v11)
    have "livePatch_v11 ?sX = P"
      using k by (simp add: resetInput_def rememberInputs_def Let_def livePatch_v11_def)
    then have "lengthsPositive (livePatch_v11 ?sX)" using P(2) by simp
    with okX have "\<not> isl (modeSwitch_v11 allowLength inp' name ?sX)" for inp'
      by (rule modeSwitch_v11_defined)
    then show "\<not> isl (bindE (modeSwitch_v11 allowLength (inp\<lparr>newPosition := np\<rparr>) name ?sX)
                 (\<lambda>s3.
            Inr (trigger (fst (clock 300 inp s3)) inp
                   (patternLength (livePatch_v11 (snd (clock 300 inp s3))))
                   (snd (clock 300 inp s3)))))"
      by (rule bindE_Inr_defined)
  qed
qed

subsection \<open>No pass subscripts a patch out of bounds\<close>

lemma defined_no_index: "\<not> isl r \<Longrightarrow> r \<noteq> Inl e"
  by auto

lemma bindE_no_index:
  assumes "m \<noteq> Inl IndexOutOfRange" "\<And>x. m = Inr x \<Longrightarrow> f x \<noteq> Inl IndexOutOfRange"
  shows "bindE m f \<noteq> Inl IndexOutOfRange"
  using assms by (cases m) (simp_all add: bindE_def)

lemma bindE_Inr_no_index:
  "m \<noteq> Inl IndexOutOfRange \<Longrightarrow> bindE m (\<lambda>x. Inr (g x)) \<noteq> Inl IndexOutOfRange"
  by (cases m) (simp_all add: bindE_def)

lemma rotate_no_index:
  "rotateLeft w len \<noteq> Inl IndexOutOfRange" "rotateRight w len \<noteq> Inl IndexOutOfRange"
  by (simp_all add: rotateLeft_def rotateRight_def shiftCount_def Let_def)

lemma storePattern_no_index:
  "r \<noteq> Inl IndexOutOfRange \<Longrightarrow> storePattern P c r \<noteq> Inl IndexOutOfRange"
  by (cases r) (simp_all add: storePattern_def)

lemma rotate_channel_no_index:
  "rotateLeftChannel P c \<noteq> Inl IndexOutOfRange" "rotateRightChannel P c \<noteq> Inl IndexOutOfRange"
  by (simp_all add: rotateLeftChannel_def rotateRightChannel_def storePattern_no_index
      rotate_no_index)

lemma functionInput_no_index: "functionInput fIn prevF ch P \<noteq> Inl IndexOutOfRange"
  by (simp add: functionInput_def rotate_channel_no_index)

lemma functionInputs_no_index: "functionInputs inp s P \<noteq> Inl IndexOutOfRange"
  unfolding functionInputs_def
  by (intro bindE_no_index functionInput_no_index)

lemma live_no_index:
  "r \<noteq> Inl IndexOutOfRange \<Longrightarrow> live_v10 np s r \<noteq> Inl IndexOutOfRange"
  "r' \<noteq> Inl IndexOutOfRange \<Longrightarrow> live_v11 np t r' \<noteq> Inl IndexOutOfRange"
proof -
  show "r \<noteq> Inl IndexOutOfRange \<Longrightarrow> live_v10 np s r \<noteq> Inl IndexOutOfRange"
    by (cases r) (simp_all add: live_v10_def)
  show "r' \<noteq> Inl IndexOutOfRange \<Longrightarrow> live_v11 np t r' \<noteq> Inl IndexOutOfRange"
    by (cases r') (simp_all add: live_v11_def)
qed

lemma rotateMode_v10_no_index:
  assumes "channelInRange s"
  shows "rotateMode_v10 inp s \<noteq> Inl IndexOutOfRange"
  by (simp add: rotateMode_v10_def channelIndex_ok(1) [OF assms] bindE_Inr_simp
      live_no_index rotate_channel_no_index)

lemma rotateMode_v11_no_index:
  assumes "channelInRange s"
  shows "rotateMode_v11 inp s \<noteq> Inl IndexOutOfRange"
  by (simp add: rotateMode_v11_def channelIndex_ok(1) [OF assms] bindE_Inr_simp
      live_no_index rotate_channel_no_index)

lemma modeSwitch_v10_no_index:
  assumes "stateOK_v10 s"
  shows "modeSwitch_v10 inp name s \<noteq> Inl IndexOutOfRange"
proof -
  have a: "channelInRange s" "lengthsInRange (currentPatch s)" "bankOK s"
    using assms by (simp_all add: stateOK_v10_def lengthsOK_v10_def)
  show ?thesis
    using defined_no_index [OF patternLengthMode_v10_defined [OF a(1,2)]]
      defined_no_index [OF numPulseMode_v10_defined [OF a(1,2)]]
      rotateMode_v10_no_index [OF a(1)]
      defined_no_index [OF programMode_v10_defined [OF a(3)]]
    by (simp add: modeSwitch_v10_def)
qed

lemma modeSwitch_v11_no_index:
  assumes "stateOK_v11 s"
  shows "modeSwitch_v11 allowLength inp name s \<noteq> Inl IndexOutOfRange"
proof -
  have a: "channelInRange s" "bankOK s"
    using assms by (simp_all add: stateOK_v11_def lengthsOK_v11_def)
  note l = live_v11_range [OF assms]
  show ?thesis
    using defined_no_index [OF patternLengthMode_v11_defined [OF a(1) l]]
      defined_no_index [OF numPulseMode_v11_defined [OF a(1) l]]
      rotateMode_v11_no_index [OF a(1)]
      defined_no_index [OF programMode_v11_defined [OF a(2)]]
    by (simp add: modeSwitch_v11_def)
qed

lemma loop_v10_no_index:
  assumes "stateOK_v10 s" "buttonInRange inp"
  shows "loop_v10 inp s \<noteq> Inl IndexOutOfRange"
proof -
  define s2 where "s2 = snd (modePress 1 inp (snd (readButtons checkProgramButtons_v10 inp s)))"
  have ok2: "stateOK_v10 s2"
    using readButtons_v10 [OF assms(2,1)] by (simp add: s2_def modePress_v10)
  note range = current_v10 [OF assms(1)]
  show ?thesis
    unfolding loop_v10_sections s2_def [symmetric]
  proof (rule bindE_no_index)
    show "functionInputs inp s2 (currentPatch s) \<noteq> Inl IndexOutOfRange"
      by (rule functionInputs_no_index)
  next
    fix P assume "functionInputs inp s2 (currentPatch s) = Inr P"
    then have len: "patternLength P = patternLength (currentPatch s)"
      by (rule functionInputs_length)
    let ?sX = "resetInput inp (rememberInputs inp (s2\<lparr>currentPatch := P\<rparr>))"
    have "lengthsInRange P" using len range by (simp add: lengthsInRange_def)
    then have "stateOK_v10 (s2\<lparr>currentPatch := P\<rparr>)"
      using ok2 by (simp add: stateOK_v10_def lengthsOK_v10_def bankOK_def channelInRange_def)
    then have "stateOK_v10 ?sX" by (simp add: inputs_v10)
    then have "modeSwitch_v10 inp' name ?sX \<noteq> Inl IndexOutOfRange" for inp' name
      by (rule modeSwitch_v10_no_index)
    then show "bindE (modeSwitch_v10
              (inp\<lparr>newPosition :=
                     fst (modePress 1 inp (snd (readButtons checkProgramButtons_v10 inp s)))\<rparr>)
              (fst (readButtons checkProgramButtons_v10 inp s)) ?sX) (\<lambda>s3.
       Inr (trigger (fst (clock 128 inp s3)) inp
              (patternLength (currentPatch (snd (clock 128 inp s3))))
              (snd (clock 128 inp s3)))) \<noteq> Inl IndexOutOfRange"
      by (rule bindE_Inr_no_index)
  qed
qed

lemma loop_v11_no_index:
  assumes "stateOK_v11 s" "buttonInRange inp"
  shows "loop_v11 allowLength inp s \<noteq> Inl IndexOutOfRange"
proof -
  define first where "first = (if allowLength then PATTERN_LENGTH_MODE else NUM_PULSE_MODE)"
  define name where "name = fst (readButtons checkProgramButtons_v11 inp s)"
  define s1 where "s1 = muteButtons_v11 inp (snd (readButtons checkProgramButtons_v11 inp s))"
  define np where "np = fst (modePress first inp s1)"
  define s2 where "s2 = snd (modePress first inp s1)"
  have ok2: "stateOK_v11 s2"
    using muteButtons_v11_lengths [OF readButtons_v11 [OF assms(2,1)]]
    by (simp add: s2_def s1_def modePress_v11)
  have range2: "lengthsInRange (livePatch_v11 s2)" using ok2 by (rule live_v11_range)
  have eq: "loop_v11 allowLength inp s =
          bindE (functionInputs inp s2 (livePatch_v11 s2)) (\<lambda>P.
          bindE (modeSwitch_v11 allowLength (inp\<lparr>newPosition := np\<rparr>) name
                   (resetInput inp (rememberInputs inp
                      (s2\<lparr>patches := (patches s2)[nat (chosenPatchNumber s2) := P]\<rparr>)))) (\<lambda>s3.
            Inr (trigger (fst (clock 300 inp s3)) inp
                   (patternLength (livePatch_v11 (snd (clock 300 inp s3))))
                   (snd (clock 300 inp s3)))))"
    by (simp add: loop_v11_def split_def Let_def name_def s1_def np_def s2_def first_def)
  show ?thesis
    unfolding eq
  proof (rule bindE_no_index)
    show "functionInputs inp s2 (livePatch_v11 s2) \<noteq> Inl IndexOutOfRange"
      by (rule functionInputs_no_index)
  next
    fix P assume "functionInputs inp s2 (livePatch_v11 s2) = Inr P"
    then have len: "patternLength P = patternLength (livePatch_v11 s2)"
      by (rule functionInputs_length)
    let ?sX = "resetInput inp (rememberInputs inp
                 (s2\<lparr>patches := (patches s2)[nat (chosenPatchNumber s2) := P]\<rparr>))"
    have "lengthsInRange P" using len range2 by (simp add: lengthsInRange_def)
    then have "\<forall>Q \<in> set ((patches s2)[nat (chosenPatchNumber s2) := P]). lengthsInRange Q"
      by (rule patches_update_v11 [OF ok2])
    then have "stateOK_v11 (s2\<lparr>patches := (patches s2)[nat (chosenPatchNumber s2) := P]\<rparr>)"
      using ok2 by (simp add: stateOK_v11_def lengthsOK_v11_def bankOK_def channelInRange_def)
    then have "stateOK_v11 ?sX" by (simp add: inputs_v11)
    then have "modeSwitch_v11 allowLength inp' name ?sX \<noteq> Inl IndexOutOfRange" for inp'
      by (rule modeSwitch_v11_no_index)
    then show "bindE (modeSwitch_v11 allowLength (inp\<lparr>newPosition := np\<rparr>) name ?sX)
                 (\<lambda>s3.
            Inr (trigger (fst (clock 300 inp s3)) inp
                   (patternLength (livePatch_v11 (snd (clock 300 inp s3))))
                   (snd (clock 300 inp s3)))) \<noteq> Inl IndexOutOfRange"
      by (rule bindE_Inr_no_index)
  qed
qed

lemma run_no_index:
  assumes "I s" "\<forall>inp \<in> set inps. Q inp"
    and step: "\<And>inp s s'. I s \<Longrightarrow> f inp s = Inr s' \<Longrightarrow> Q inp \<Longrightarrow> I s'"
    and safe: "\<And>inp s. I s \<Longrightarrow> Q inp \<Longrightarrow> f inp s \<noteq> Inl IndexOutOfRange"
  shows "run f inps s \<noteq> Inl IndexOutOfRange"
  using assms(1,2)
proof (induction inps arbitrary: s)
  case Nil
  then show ?case by simp
next
  case (Cons inp inps)
  have q: "Q inp" "\<forall>inp \<in> set inps. Q inp" using Cons.prems(2) by simp_all
  show ?case
    unfolding run.simps
  proof (rule bindE_no_index)
    show "f inp s \<noteq> Inl IndexOutOfRange" using Cons.prems(1) q(1) by (rule safe)
  next
    fix s1 assume "f inp s = Inr s1"
    with Cons.prems(1) have "I s1" using q(1) by (rule step)
    then show "run f inps s1 \<noteq> Inl IndexOutOfRange" using q(2) by (rule Cons.IH)
  qed
qed

lemma run_v10_no_index:
  assumes "stateOK_v10 s" "\<forall>inp \<in> set inps. buttonInRange inp"
  shows "run loop_v10 inps s \<noteq> Inl IndexOutOfRange"
  using assms by (rule run_no_index) (rule loop_v10_lengths, assumption+, rule loop_v10_no_index)

lemma run_v11_no_index:
  assumes "stateOK_v11 s" "\<forall>inp \<in> set inps. buttonInRange inp"
  shows "run (loop_v11 allowLength) inps s \<noteq> Inl IndexOutOfRange"
  using assms by (rule run_no_index) (rule loop_v11_lengths, assumption+, rule loop_v11_no_index)

text \<open>
  C6 (as the specification states it): the decrement path clamps the pattern length at
  a lower bound of at least 1. Version 1.0, from the factory state: after one press of
  the encoder switch (pattern-length mode) and eleven detents the selected channel has
  length 1; the twelfth detent makes it 0.
\<close>

theorem pattern_length_floor_counterexample:
  "map_sum id (patternLength \<circ> currentPatch) (run loop_v10 (butlast lengthMenuRun) factoryState_v10)
     = Inr [14, 15, 15, 1]
   \<and> map_sum id (patternLength \<circ> currentPatch) (run loop_v10 lengthMenuRun factoryState_v10)
     = Inr [14, 15, 15, 0]"
  by code_simp

text \<open>
  C6 (amended). Take a state whose pattern lengths (live patch, bank and empty patch) lie
  in 0..16 and whose selected trigger channel is one of the four channels, and passes of
  the loop in which the trigger buttons decode to one of the four buttons. In every state
  these passes reach, the pattern lengths lie in 0..16 again and the selected channel is
  one of the four channels again, in both sketches and for every channel. A
  pattern-length detent adds 1 and clamps at 16, or subtracts 1 and clamps at 0, never
  at 1, and it returns at every length in 0..16. A pass returns whenever every channel
  of the live patch has at least one step: the passes that do not return are passes
  that rotate a pattern of length 0. No run from such a state subscripts an array of
  a patch out of bounds: a run returns, or it stops at the undefined shift of such a
  rotation.
\<close>

theorem pattern_length_bounds:
  "(lengthsOK_v10 s \<longrightarrow> channelInRange s \<longrightarrow> (\<forall>inp \<in> set inps. buttonInRange inp)
      \<longrightarrow> run loop_v10 inps s = Inr s' \<longrightarrow>
      lengthsOK_v10 s' \<and> channelInRange s' \<and>
      (\<forall>c \<in> {0..<4}. 0 \<le> patternLength (currentPatch s') ! c
                      \<and> patternLength (currentPatch s') ! c \<le> 16))
   \<and> (lengthsOK_v11 t \<longrightarrow> channelInRange t \<longrightarrow> (\<forall>inp \<in> set inps'. buttonInRange inp)
      \<longrightarrow> run (loop_v11 allowLength) inps' t = Inr t' \<longrightarrow>
      lengthsOK_v11 t' \<and> channelInRange t' \<and>
      (\<forall>c \<in> {0..<4}. 0 \<le> patternLength (livePatch_v11 t') ! c
                      \<and> patternLength (livePatch_v11 t') ! c \<le> 16))
   \<and> (c < length (patternLength P) \<longrightarrow> decreaseLength P c = Inr P' \<longrightarrow>
        patternLength P' ! c = max 0 (patternLength P ! c - 1))
   \<and> (c < length (patternLength P) \<longrightarrow> increaseLength P c = Inr P'' \<longrightarrow>
        patternLength P'' ! c = min 16 (patternLength P ! c + 1))
   \<and> (channelInRange u \<longrightarrow> lengthsInRange (currentPatch u) \<longrightarrow>
        \<not> isl (patternLengthMode_v10 inp u))
   \<and> (channelInRange v \<longrightarrow> lengthsInRange (livePatch_v11 v) \<longrightarrow>
        \<not> isl (patternLengthMode_v11 inp v))
   \<and> (lengthsOK_v10 u' \<longrightarrow> channelInRange u' \<longrightarrow> buttonInRange inp' \<longrightarrow>
        lengthsPositive (currentPatch u') \<longrightarrow> \<not> isl (loop_v10 inp' u'))
   \<and> (lengthsOK_v11 v' \<longrightarrow> channelInRange v' \<longrightarrow> buttonInRange inp' \<longrightarrow>
        lengthsPositive (livePatch_v11 v') \<longrightarrow> \<not> isl (loop_v11 allowLength inp' v'))
   \<and> (lengthsOK_v10 w \<longrightarrow> channelInRange w \<longrightarrow> (\<forall>inp \<in> set ws. buttonInRange inp)
        \<longrightarrow> run loop_v10 ws w \<noteq> Inl IndexOutOfRange)
   \<and> (lengthsOK_v11 w' \<longrightarrow> channelInRange w' \<longrightarrow> (\<forall>inp \<in> set ws'. buttonInRange inp)
        \<longrightarrow> run (loop_v11 allowLength) ws' w' \<noteq> Inl IndexOutOfRange)"
proof (intro conjI impI)
  assume "lengthsOK_v10 s" "channelInRange s" "\<forall>inp \<in> set inps. buttonInRange inp"
    "run loop_v10 inps s = Inr s'"
  then have "stateOK_v10 s" "run loop_v10 inps s = Inr s'" "\<forall>inp \<in> set inps. buttonInRange inp"
    by (simp_all add: stateOK_v10_def)
  then have ok: "stateOK_v10 s'"
    by (rule run_invariant_inputs) (rule loop_v10_lengths)
  then show "lengthsOK_v10 s'" "channelInRange s'" by (simp_all add: stateOK_v10_def)
  show "\<forall>c \<in> {0..<4}. 0 \<le> patternLength (currentPatch s') ! c
                      \<and> patternLength (currentPatch s') ! c \<le> 16"
    using current_v10 [OF ok] by (simp add: lengthsInRange_def)
next
  assume "lengthsOK_v11 t" "channelInRange t" "\<forall>inp \<in> set inps'. buttonInRange inp"
    "run (loop_v11 allowLength) inps' t = Inr t'"
  then have "stateOK_v11 t" "run (loop_v11 allowLength) inps' t = Inr t'"
    "\<forall>inp \<in> set inps'. buttonInRange inp"
    by (simp_all add: stateOK_v11_def)
  then have ok: "stateOK_v11 t'"
    by (rule run_invariant_inputs) (rule loop_v11_lengths)
  then show "lengthsOK_v11 t'" "channelInRange t'" by (simp_all add: stateOK_v11_def)
  show "\<forall>c \<in> {0..<4}. 0 \<le> patternLength (livePatch_v11 t') ! c
                      \<and> patternLength (livePatch_v11 t') ! c \<le> 16"
    using live_v11_range [OF ok] by (simp add: lengthsInRange_def)
next
  assume "c < length (patternLength P)" "decreaseLength P c = Inr P'"
  then show "patternLength P' ! c = max 0 (patternLength P ! c - 1)"
    by (rule length_edit_value(2))
next
  assume "c < length (patternLength P)" "increaseLength P c = Inr P''"
  then show "patternLength P'' ! c = min 16 (patternLength P ! c + 1)"
    by (rule length_edit_value(1))
next
  assume "channelInRange u" "lengthsInRange (currentPatch u)"
  then show "\<not> isl (patternLengthMode_v10 inp u)" by (rule patternLengthMode_v10_defined)
next
  assume "channelInRange v" "lengthsInRange (livePatch_v11 v)"
  then show "\<not> isl (patternLengthMode_v11 inp v)" by (rule patternLengthMode_v11_defined)
next
  assume "lengthsOK_v10 u'" "channelInRange u'" "buttonInRange inp'"
    "lengthsPositive (currentPatch u')"
  then show "\<not> isl (loop_v10 inp' u')"
    by (intro loop_v10_defined) (simp_all add: stateOK_v10_def)
next
  assume "lengthsOK_v11 v'" "channelInRange v'" "buttonInRange inp'"
    "lengthsPositive (livePatch_v11 v')"
  then show "\<not> isl (loop_v11 allowLength inp' v')"
    by (intro loop_v11_defined) (simp_all add: stateOK_v11_def)
next
  assume "lengthsOK_v10 w" "channelInRange w" "\<forall>inp \<in> set ws. buttonInRange inp"
  then show "run loop_v10 ws w \<noteq> Inl IndexOutOfRange"
    by (intro run_v10_no_index) (simp_all add: stateOK_v10_def)
next
  assume "lengthsOK_v11 w'" "channelInRange w'" "\<forall>inp \<in> set ws'. buttonInRange inp"
  then show "run (loop_v11 allowLength) ws' w' \<noteq> Inl IndexOutOfRange"
    by (intro run_v11_no_index) (simp_all add: stateOK_v11_def)
qed

theorem pattern_length_bounds_witness:
  "lengthsOK_v10 factoryState_v10 \<and> channelInRange factoryState_v10
   \<and> list_all buttonInRange lengthMenuRun
   \<and> \<not> isl (run loop_v10 lengthMenuRun factoryState_v10)
   \<and> lengthsOK_v10 (projr (run loop_v10 lengthMenuRun factoryState_v10))
   \<and> channelInRange (projr (run loop_v10 lengthMenuRun factoryState_v10))
   \<and> patternLength (currentPatch (projr (run loop_v10 lengthMenuRun factoryState_v10)))
       = [14, 15, 15, 0]
   \<and> lengthsOK_v11 lengthMenuState_v11 \<and> channelInRange lengthMenuState_v11
   \<and> list_all buttonInRange lengthDetents
   \<and> \<not> isl (run (loop_v11 True) lengthDetents lengthMenuState_v11)
   \<and> lengthsOK_v11 (projr (run (loop_v11 True) lengthDetents lengthMenuState_v11))
   \<and> channelInRange (projr (run (loop_v11 True) lengthDetents lengthMenuState_v11))
   \<and> patternLength (livePatch_v11 (projr (run (loop_v11 True) lengthDetents lengthMenuState_v11)))
       = [16, 16, 16, 0]
   \<and> \<not> isl (decreaseLength factoryPatch_v10 3)
   \<and> patternLength (projr (decreaseLength factoryPatch_v10 3)) ! 3 = 11
   \<and> \<not> isl (increaseLength factoryPatch_v10 3)
   \<and> patternLength (projr (increaseLength factoryPatch_v10 3)) ! 3 = 13
   \<and> \<not> isl (patternLengthMode_v10 extraDetent
               (projr (run loop_v10 lengthMenuRun factoryState_v10)))
   \<and> \<not> isl (patternLengthMode_v11 extraDetent
               (projr (run (loop_v11 True) lengthDetents lengthMenuState_v11)))
   \<and> buttonInRange f1Edge
   \<and> lengthsPositive (currentPatch factoryState_v10)
   \<and> \<not> isl (loop_v10 f1Edge factoryState_v10)
   \<and> lengthsPositive (livePatch_v11 lengthMenuState_v11)
   \<and> \<not> isl (loop_v11 True f1Edge lengthMenuState_v11)
   \<and> list_all buttonInRange recallEmptyThenF1
   \<and> run loop_v10 recallEmptyThenF1 factoryState_v10 \<noteq> Inl IndexOutOfRange
   \<and> list_all buttonInRange lengthDetentsThenF4
   \<and> run (loop_v11 True) lengthDetentsThenF4 lengthMenuState_v11 \<noteq> Inl IndexOutOfRange
   \<and> run (loop_v11 True) lengthDetentsThenF4 lengthMenuState_v11 = Inl UndefinedShift"
proof -
  let ?r10 = "run loop_v10 lengthMenuRun factoryState_v10"
  let ?r11 = "run (loop_v11 True) lengthDetents lengthMenuState_v11"
  have a: "lengthsOK_v10 factoryState_v10" "channelInRange factoryState_v10"
    "lengthsOK_v11 lengthMenuState_v11" "channelInRange lengthMenuState_v11"
    by code_simp+
  have b: "\<forall>inp \<in> set lengthMenuRun. buttonInRange inp"
    "\<forall>inp \<in> set lengthDetents. buttonInRange inp" "buttonInRange f1Edge"
    "\<forall>inp \<in> set recallEmptyThenF1. buttonInRange inp"
    "\<forall>inp \<in> set lengthDetentsThenF4. buttonInRange inp"
    by (simp_all add: lengthMenuRun_def lengthDetents_def f1Edge_def recallEmptyThenF1_def
        lengthDetentsThenF4_def idle_def buttonInRange_def)
  have b': "list_all buttonInRange lengthMenuRun" "list_all buttonInRange lengthDetents"
    "list_all buttonInRange recallEmptyThenF1" "list_all buttonInRange lengthDetentsThenF4"
    using b by (simp_all only: list_all_iff)
  have k: "run (loop_v11 True) lengthDetentsThenF4 lengthMenuState_v11 = Inl UndefinedShift"
    by code_simp
  have r10: "\<not> isl ?r10" by code_simp
  have r11: "\<not> isl ?r11" by code_simp
  have l10: "patternLength (currentPatch (projr ?r10)) = [14, 15, 15, 0]" by code_simp
  have l11: "patternLength (livePatch_v11 (projr ?r11)) = [16, 16, 16, 0]" by code_simp
  have e: "\<not> isl (decreaseLength factoryPatch_v10 3)" by code_simp
  have f: "\<not> isl (increaseLength factoryPatch_v10 3)" by code_simp
  have g: "3 < length (patternLength factoryPatch_v10)"
    "patternLength factoryPatch_v10 ! 3 = 12"
    by (simp_all add: factoryPatch_v10_def)
  have h: "lengthsPositive (currentPatch factoryState_v10)"
    "lengthsPositive (livePatch_v11 lengthMenuState_v11)"
    by code_simp+
  note inst = pattern_length_bounds [where s = factoryState_v10 and inps = lengthMenuRun
      and s' = "projr ?r10" and t = lengthMenuState_v11 and allowLength = True
      and inps' = lengthDetents and t' = "projr ?r11"
      and c = 3 and P = factoryPatch_v10
      and P' = "projr (decreaseLength factoryPatch_v10 3)"
      and P'' = "projr (increaseLength factoryPatch_v10 3)"
      and u = "projr ?r10" and v = "projr ?r11" and inp = extraDetent
      and u' = factoryState_v10 and v' = lengthMenuState_v11 and inp' = f1Edge
      and w = factoryState_v10 and ws = recallEmptyThenF1
      and w' = lengthMenuState_v11 and ws' = lengthDetentsThenF4]
  have i: "lengthsOK_v10 (projr ?r10)" "channelInRange (projr ?r10)"
    "lengthsOK_v11 (projr ?r11)" "channelInRange (projr ?r11)"
    using inst a b Inr_projr [OF r10] Inr_projr [OF r11] by simp_all
  have j: "lengthsInRange (currentPatch (projr ?r10))" "lengthsInRange (livePatch_v11 (projr ?r11))"
    using inst a b Inr_projr [OF r10] Inr_projr [OF r11] by (simp_all add: lengthsInRange_def)
  show ?thesis
    using inst a b b' r10 r11 l10 l11 e f g h i j k Inr_projr [OF e] Inr_projr [OF f]
    by simp
qed

section \<open>The escape button and the tempo edit\<close>

lemma tempoEdit_range:
  assumes "10 \<le> delayTime s" "delayTime s \<le> 500"
  shows "10 \<le> delayTime (tempoEdit np s) \<and> delayTime (tempoEdit np s) \<le> 500"
proof -
  let ?d = "delayTime s"
  have u: "10 \<le> unat ?d" "unat ?d \<le> 500"
    using assms by (simp_all add: word_le_nat_alt)
  have dec: "unat (?d - 1) = unat ?d - 1"
    using u by (intro unat_minus_one) auto
  have inc: "unat (?d + 1) = unat ?d + 1"
    using u by (simp add: unat_word_ariths)
  have "?d - 1 \<le> 500" using u dec by (simp add: word_le_nat_alt)
  moreover have "10 \<le> ?d + 1" using u inc by (simp add: word_le_nat_alt)
  ultimately show ?thesis
    using assms by (auto simp add: tempoEdit_def Let_def MAX_DELAY_TIME_def not_less)
qed

lemma clock_delayTime:
  "delayTime (snd (clock low inp s)) =
     (if clkPin inp \<and> extClkV inp > 512 \<and> prevExtClk s < low
      then ucast (thisTime inp - prevTime s) else delayTime s)"
  by (simp add: clock_def)








section \<open>The range of the tempo interval\<close>

lemma tempoEdit_inRange: "tempoInRange s \<Longrightarrow> tempoInRange (tempoEdit np s)"
  using tempoEdit_range [of s np] by (simp add: tempoInRange_def)

lemma restart_live_v10_tempo:
  "restart_v10 (live_v10 np s r) = Inr s' \<Longrightarrow> tempoInRange s' = tempoInRange s"
  by (erule restart_live_v10) (simp add: tempoInRange_def)

lemma live_v10_tempo:
  "live_v10 np s r = Inr s' \<Longrightarrow> tempoInRange s' = tempoInRange s"
  by (erule live_v10_result) (simp add: tempoInRange_def)

lemma live_v11_tempo:
  "live_v11 np s r = Inr s' \<Longrightarrow> tempoInRange s' = tempoInRange s"
  by (erule live_v11_result) (simp add: tempoInRange_def)

lemma patternLengthMode_v10_tempo:
  assumes "tempoInRange s" "patternLengthMode_v10 inp s = Inr s'"
  shows "tempoInRange s'"
proof -
  let ?np = "newPosition inp"
  consider (tempo) "escapeButton inp \<noteq> 0"
    | (up) "escapeButton inp = 0" "?np < oldPosition s - 3"
    | (down) "escapeButton inp = 0" "\<not> ?np < oldPosition s - 3" "?np > oldPosition s + 3"
    | (none) "escapeButton inp = 0" "\<not> ?np < oldPosition s - 3" "\<not> ?np > oldPosition s + 3"
    by blast
  then show ?thesis
  proof cases
    case tempo
    then have "s' = tempoEdit ?np s" using assms(2) by (simp add: patternLengthMode_v10_def bindE_channelIndex)
    then show ?thesis using assms(1) by (simp add: tempoEdit_inRange)
  next
    case up
    then show ?thesis
      using assms restart_live_v10_tempo [of ?np s _ s']
      by (clarsimp simp add: patternLengthMode_v10_def bindE_channelIndex)
  next
    case down
    then show ?thesis
      using assms restart_live_v10_tempo [of ?np s _ s']
      by (clarsimp simp add: patternLengthMode_v10_def bindE_channelIndex)
  next
    case none
    then have "s' = s" using assms(2) by (simp add: patternLengthMode_v10_def bindE_channelIndex)
    then show ?thesis using assms(1) by simp
  qed
qed

lemma numPulseMode_v10_tempo:
  assumes "tempoInRange s" "numPulseMode_v10 inp s = Inr s'"
  shows "tempoInRange s'"
proof -
  let ?np = "newPosition inp"
  consider (one) "?np < oldPosition s - 3"
    | (two) "\<not> ?np < oldPosition s - 3" "?np > oldPosition s + 3"
    | (none) "\<not> ?np < oldPosition s - 3" "\<not> ?np > oldPosition s + 3"
    by blast
  then show ?thesis
  proof cases
    case one
    then show ?thesis
      using assms restart_live_v10_tempo [of ?np s _ s']
      by (clarsimp simp add: numPulseMode_v10_def bindE_channelIndex)
  next
    case two
    then show ?thesis
      using assms restart_live_v10_tempo [of ?np s _ s']
      by (clarsimp simp add: numPulseMode_v10_def bindE_channelIndex)
  next
    case none
    then have "s' = s" using assms(2) by (simp add: numPulseMode_v10_def bindE_channelIndex)
    then show ?thesis using assms(1) by simp
  qed
qed

lemma rotateMode_v10_tempo:
  assumes "tempoInRange s" "rotateMode_v10 inp s = Inr s'"
  shows "tempoInRange s'"
proof -
  let ?np = "newPosition inp"
  consider (one) "?np > oldPosition s + 3"
    | (two) "\<not> ?np > oldPosition s + 3" "?np < oldPosition s - 3"
    | (none) "\<not> ?np > oldPosition s + 3" "\<not> ?np < oldPosition s - 3"
    by blast
  then show ?thesis
  proof cases
    case one
    then show ?thesis
      using assms live_v10_tempo [of ?np s _ s']
      by (clarsimp simp add: rotateMode_v10_def bindE_channelIndex)
  next
    case two
    then show ?thesis
      using assms live_v10_tempo [of ?np s _ s']
      by (clarsimp simp add: rotateMode_v10_def bindE_channelIndex)
  next
    case none
    then have "s' = s" using assms(2) by (simp add: rotateMode_v10_def bindE_channelIndex)
    then show ?thesis using assms(1) by simp
  qed
qed

lemma patternLengthMode_v11_tempo:
  assumes "tempoInRange s" "patternLengthMode_v11 inp s = Inr s'"
  shows "tempoInRange s'"
proof -
  let ?np = "newPosition inp"
  consider (tempo) "escapeButton inp \<noteq> 0"
    | (one) "escapeButton inp = 0" "?np < oldPosition s - 3"
    | (two) "escapeButton inp = 0" "\<not> ?np < oldPosition s - 3" "?np > oldPosition s + 3"
    | (none) "escapeButton inp = 0" "\<not> ?np < oldPosition s - 3" "\<not> ?np > oldPosition s + 3"
    by blast
  then show ?thesis
  proof cases
    case tempo
    then have "s' = tempoEdit ?np s" using assms(2) by (simp add: patternLengthMode_v11_def bindE_channelIndex)
    then show ?thesis using assms(1) by (simp add: tempoEdit_inRange)
  next
    case one
    then show ?thesis
      using assms live_v11_tempo [of ?np s _ s']
      by (clarsimp simp add: patternLengthMode_v11_def bindE_channelIndex)
  next
    case two
    then show ?thesis
      using assms live_v11_tempo [of ?np s _ s']
      by (clarsimp simp add: patternLengthMode_v11_def bindE_channelIndex)
  next
    case none
    then have "s' = s" using assms(2) by (simp add: patternLengthMode_v11_def bindE_channelIndex)
    then show ?thesis using assms(1) by simp
  qed
qed

lemma numPulseMode_v11_tempo:
  assumes "tempoInRange s" "numPulseMode_v11 inp s = Inr s'"
  shows "tempoInRange s'"
proof -
  let ?np = "newPosition inp"
  consider (tempo) "escapeButton inp \<noteq> 0"
    | (one) "escapeButton inp = 0" "?np < oldPosition s - 3"
    | (two) "escapeButton inp = 0" "\<not> ?np < oldPosition s - 3" "?np > oldPosition s + 3"
    | (none) "escapeButton inp = 0" "\<not> ?np < oldPosition s - 3" "\<not> ?np > oldPosition s + 3"
    by blast
  then show ?thesis
  proof cases
    case tempo
    then have "s' = tempoEdit ?np s" using assms(2) by (simp add: numPulseMode_v11_def bindE_channelIndex)
    then show ?thesis using assms(1) by (simp add: tempoEdit_inRange)
  next
    case one
    then show ?thesis
      using assms live_v11_tempo [of ?np s _ s']
      by (clarsimp simp add: numPulseMode_v11_def bindE_channelIndex)
  next
    case two
    then show ?thesis
      using assms live_v11_tempo [of ?np s _ s']
      by (clarsimp simp add: numPulseMode_v11_def bindE_channelIndex)
  next
    case none
    then have "s' = s" using assms(2) by (simp add: numPulseMode_v11_def bindE_channelIndex)
    then show ?thesis using assms(1) by simp
  qed
qed

lemma rotateMode_v11_tempo:
  assumes "tempoInRange s" "rotateMode_v11 inp s = Inr s'"
  shows "tempoInRange s'"
proof -
  let ?np = "newPosition inp"
  consider (tempo) "escapeButton inp \<noteq> 0"
    | (one) "escapeButton inp = 0" "?np > oldPosition s + 3"
    | (two) "escapeButton inp = 0" "\<not> ?np > oldPosition s + 3" "?np < oldPosition s - 3"
    | (none) "escapeButton inp = 0" "\<not> ?np > oldPosition s + 3" "\<not> ?np < oldPosition s - 3"
    by blast
  then show ?thesis
  proof cases
    case tempo
    then have "s' = tempoEdit ?np s" using assms(2) by (simp add: rotateMode_v11_def bindE_channelIndex)
    then show ?thesis using assms(1) by (simp add: tempoEdit_inRange)
  next
    case one
    then show ?thesis
      using assms live_v11_tempo [of ?np s _ s']
      by (clarsimp simp add: rotateMode_v11_def bindE_channelIndex)
  next
    case two
    then show ?thesis
      using assms live_v11_tempo [of ?np s _ s']
      by (clarsimp simp add: rotateMode_v11_def bindE_channelIndex)
  next
    case none
    then have "s' = s" using assms(2) by (simp add: rotateMode_v11_def bindE_channelIndex)
    then show ?thesis using assms(1) by simp
  qed
qed

lemma moveCandidate_tempo: "tempoInRange (moveCandidate np s) = tempoInRange s"
  by (simp add: moveCandidate_def tempoInRange_def Let_def)

lemma program_ops_v10_tempo:
  "tempoInRange (recall_v10 s) = tempoInRange s"
  "clear_v10 s = Inr s' \<Longrightarrow> tempoInRange s' = tempoInRange s"
  "store_v10 s = Inr s' \<Longrightarrow> tempoInRange s' = tempoInRange s"
proof -
  show "tempoInRange (recall_v10 s) = tempoInRange s"
    by (simp add: recall_v10_def Let_def tempoInRange_def)
  show "clear_v10 s = Inr s' \<Longrightarrow> tempoInRange s' = tempoInRange s"
    by (cases "shiftCount (candidatePatchNumber s)")
       (auto simp add: clear_v10_def tempoInRange_def)
  show "store_v10 s = Inr s' \<Longrightarrow> tempoInRange s' = tempoInRange s"
    by (cases "shiftCount (candidatePatchNumber s)")
       (auto simp add: store_v10_def tempoInRange_def)
qed

lemma program_ops_v11_tempo:
  "recall_v11 s = Inr s' \<Longrightarrow> tempoInRange s' = tempoInRange s"
  "clear_v11 s = Inr s' \<Longrightarrow> tempoInRange s' = tempoInRange s"
  "store_v11 s = Inr s' \<Longrightarrow> tempoInRange s' = tempoInRange s"
proof -
  show "recall_v11 s = Inr s' \<Longrightarrow> tempoInRange s' = tempoInRange s"
    by (cases "shiftCount (candidatePatchNumber s)")
       (auto simp add: recall_v11_def tempoInRange_def Let_def)
  show "clear_v11 s = Inr s' \<Longrightarrow> tempoInRange s' = tempoInRange s"
    by (cases "shiftCount (candidatePatchNumber s)")
       (auto simp add: clear_v11_def tempoInRange_def)
  show "store_v11 s = Inr s' \<Longrightarrow> tempoInRange s' = tempoInRange s"
    by (cases "shiftCount (candidatePatchNumber s)")
       (auto simp add: store_v11_def tempoInRange_def)
qed

lemma programMode_v10_tempo:
  assumes "tempoInRange s" "programMode_v10 inp name s = Inr s'"
  shows "tempoInRange s'"
  using programMode_v10_cases [OF assms(2)] assms(1)
    program_ops_v10_tempo(1) [of "moveCandidate (newPosition inp) s"]
    program_ops_v10_tempo(2,3) [of "moveCandidate (newPosition inp) s" s']
  by (auto simp add: moveCandidate_tempo)

lemma programMode_v11_tempo:
  assumes "tempoInRange s" "programMode_v11 inp name s = Inr s'"
  shows "tempoInRange s'"
  using programMode_v11_cases [OF assms(2)] assms(1)
    program_ops_v11_tempo [of "moveCandidate (newPosition inp) s" s']
  by (auto simp add: moveCandidate_tempo)

lemma modeSwitch_v10_tempo:
  assumes "tempoInRange s" "modeSwitch_v10 inp name s = Inr s'"
  shows "tempoInRange s'"
  using assms(2)
proof (cases rule: modeSwitch_v10_cases)
  case len
  then show ?thesis by (rule patternLengthMode_v10_tempo [OF assms(1)])
next
  case num
  then show ?thesis by (rule numPulseMode_v10_tempo [OF assms(1)])
next
  case rot
  then show ?thesis by (rule rotateMode_v10_tempo [OF assms(1)])
next
  case prg
  then show ?thesis by (rule programMode_v10_tempo [OF assms(1)])
next
  case none
  then show ?thesis using assms(1) by simp
qed

lemma modeSwitch_v11_tempo:
  assumes "tempoInRange s" "modeSwitch_v11 allowLength inp name s = Inr s'"
  shows "tempoInRange s'"
  using assms(2)
proof (cases rule: modeSwitch_v11_cases)
  case len
  then show ?thesis by (rule patternLengthMode_v11_tempo [OF assms(1)])
next
  case num
  then show ?thesis by (rule numPulseMode_v11_tempo [OF assms(1)])
next
  case rot
  then show ?thesis by (rule rotateMode_v11_tempo [OF assms(1)])
next
  case prg
  then show ?thesis by (rule programMode_v11_tempo [OF assms(1)])
next
  case none
  then show ?thesis using assms(1) by simp
qed

lemma sections_tempo:
  "tempoInRange (snd (readButtons check inp s)) = tempoInRange s"
  "tempoInRange (snd (modePress firstMode inp s)) = tempoInRange s"
  "tempoInRange (resetInput inp (rememberInputs inp s)) = tempoInRange s"
  "\<not> clkPin inp \<Longrightarrow> tempoInRange (trigger t inp lens (snd (clock low inp s))) = tempoInRange s"
  by (simp_all add: readButtons_def checkButtons_def modePress_def resetInput_def
      rememberInputs_def trigger_def clock_def tempoInRange_def split_def Let_def
      split: option.splits)

lemma muteButtons_v11_tempo: "tempoInRange (muteButtons_v11 inp s) = tempoInRange s"
  by (simp add: muteButtons_v11_def tempoInRange_def Let_def split: option.splits)

lemma loop_v10_tempo:
  assumes "tempoInRange s" "loop_v10 inp s = Inr s'" "\<not> clkPin inp"
  shows "tempoInRange s'"
proof -
  define name where "name = fst (readButtons checkProgramButtons_v10 inp s)"
  define s1 where "s1 = snd (readButtons checkProgramButtons_v10 inp s)"
  define np where "np = fst (modePress 1 inp s1)"
  define s2 where "s2 = snd (modePress 1 inp s1)"
  have ok2: "tempoInRange s2"
    using assms(1) by (simp add: s2_def s1_def sections_tempo)
  have "loop_v10 inp s =
          bindE (functionInputs inp s2 (currentPatch s2)) (\<lambda>P.
          bindE (modeSwitch_v10 (inp\<lparr>newPosition := np\<rparr>) name
                   (resetInput inp (rememberInputs inp (s2\<lparr>currentPatch := P\<rparr>)))) (\<lambda>s3.
            Inr (trigger (fst (clock 128 inp s3)) inp
                   (patternLength (currentPatch (snd (clock 128 inp s3))))
                   (snd (clock 128 inp s3)))))"
    by (simp add: loop_v10_def split_def Let_def name_def s1_def np_def s2_def)
  with assms(2) obtain P s3 where
    s3: "modeSwitch_v10 (inp\<lparr>newPosition := np\<rparr>) name
           (resetInput inp (rememberInputs inp (s2\<lparr>currentPatch := P\<rparr>))) = Inr s3"
    and s': "s' = trigger (fst (clock 128 inp s3)) inp
                    (patternLength (currentPatch (snd (clock 128 inp s3))))
                    (snd (clock 128 inp s3))"
    by (auto elim!: bindE_InrE)
  have "tempoInRange (s2\<lparr>currentPatch := P\<rparr>)"
    using ok2 by (simp add: tempoInRange_def)
  then have "tempoInRange (resetInput inp (rememberInputs inp (s2\<lparr>currentPatch := P\<rparr>)))"
    by (simp add: sections_tempo)
  then have "tempoInRange s3" using s3 by (rule modeSwitch_v10_tempo)
  then show ?thesis using s' assms(3) by (simp add: sections_tempo)
qed

lemma loop_v11_tempo:
  assumes "tempoInRange s" "loop_v11 allowLength inp s = Inr s'" "\<not> clkPin inp"
  shows "tempoInRange s'"
proof -
  define first where "first = (if allowLength then PATTERN_LENGTH_MODE else NUM_PULSE_MODE)"
  define name where "name = fst (readButtons checkProgramButtons_v11 inp s)"
  define s1 where "s1 = muteButtons_v11 inp (snd (readButtons checkProgramButtons_v11 inp s))"
  define np where "np = fst (modePress first inp s1)"
  define s2 where "s2 = snd (modePress first inp s1)"
  have ok2: "tempoInRange s2"
    using assms(1) by (simp add: s2_def s1_def sections_tempo muteButtons_v11_tempo)
  have "loop_v11 allowLength inp s =
          bindE (functionInputs inp s2 (livePatch_v11 s2)) (\<lambda>P.
          bindE (modeSwitch_v11 allowLength (inp\<lparr>newPosition := np\<rparr>) name
                   (resetInput inp (rememberInputs inp
                      (s2\<lparr>patches := (patches s2)[nat (chosenPatchNumber s2) := P]\<rparr>)))) (\<lambda>s3.
            Inr (trigger (fst (clock 300 inp s3)) inp
                   (patternLength (livePatch_v11 (snd (clock 300 inp s3))))
                   (snd (clock 300 inp s3)))))"
    by (simp add: loop_v11_def split_def Let_def name_def s1_def np_def s2_def first_def)
  with assms(2) obtain P s3 where
    s3: "modeSwitch_v11 allowLength (inp\<lparr>newPosition := np\<rparr>) name
           (resetInput inp (rememberInputs inp
              (s2\<lparr>patches := (patches s2)[nat (chosenPatchNumber s2) := P]\<rparr>))) = Inr s3"
    and s': "s' = trigger (fst (clock 300 inp s3)) inp
                    (patternLength (livePatch_v11 (snd (clock 300 inp s3))))
                    (snd (clock 300 inp s3))"
    by (auto elim!: bindE_InrE)
  have "tempoInRange (s2\<lparr>patches := (patches s2)[nat (chosenPatchNumber s2) := P]\<rparr>)"
    using ok2 by (simp add: tempoInRange_def)
  then have "tempoInRange (resetInput inp (rememberInputs inp
               (s2\<lparr>patches := (patches s2)[nat (chosenPatchNumber s2) := P]\<rparr>)))"
    by (simp add: sections_tempo)
  then have "tempoInRange s3" using s3 by (rule modeSwitch_v11_tempo)
  then show ?thesis using s' assms(3) by (simp add: sections_tempo)
qed

text \<open>
  C8 (as the specification states it): no operation leaves the tempo interval outside
  10..500. Version 1.1, factory state, external clock selected: a rising clock edge
  1000 ms after the previous trigger stores 1000 in \<^verbatim>\<open>delayTime\<close>.
\<close>

theorem tempo_external_clock_counterexample:
  "map_sum id delayTime (loop_v11 False externalPulse factoryState_v11) = Inr 1000
   \<and> \<not> (1000 :: uint) \<le> 500"
  by code_simp

text \<open>
  C8 (amended). With the internal clock selected, every pass of the loop keeps a tempo
  interval in 10..500 within 10..500, in both sketches: the encoder tempo edit clamps at
  both bounds (from 10 a decrease stays at 10, from 500 an increase stays at 500) and
  nothing else assigns it. With the external clock selected, a rising clock edge
  stores the time since the previous trigger, truncated to 16 bits and not clamped.
\<close>

theorem tempo_bounds:
  "(tempoInRange s \<longrightarrow> (\<forall>inp \<in> set inps. \<not> clkPin inp) \<longrightarrow> run loop_v10 inps s = Inr s'
      \<longrightarrow> tempoInRange s')
   \<and> (tempoInRange t \<longrightarrow> (\<forall>inp \<in> set inps'. \<not> clkPin inp)
      \<longrightarrow> run (loop_v11 allowLength) inps' t = Inr t' \<longrightarrow> tempoInRange t')
   \<and> (tempoInRange u \<longrightarrow> tempoInRange (tempoEdit np u))
   \<and> (delayTime lo = 10 \<longrightarrow> np1 < oldPosition lo - 3 \<longrightarrow> delayTime (tempoEdit np1 lo) = 10)
   \<and> (delayTime hi = 500 \<longrightarrow> np2 > oldPosition hi + 3 \<longrightarrow> delayTime (tempoEdit np2 hi) = 500)
   \<and> delayTime (snd (clock low inp u)) =
        (if clkPin inp \<and> extClkV inp > 512 \<and> prevExtClk u < low
         then ucast (thisTime inp - prevTime u) else delayTime u)"
proof (intro conjI impI)
  assume "tempoInRange s" "\<forall>inp \<in> set inps. \<not> clkPin inp" "run loop_v10 inps s = Inr s'"
  then show "tempoInRange s'"
    using run_invariant_inputs [of tempoInRange s loop_v10 inps s' "\<lambda>inp. \<not> clkPin inp"]
      loop_v10_tempo by blast
next
  assume "tempoInRange t" "\<forall>inp \<in> set inps'. \<not> clkPin inp"
    "run (loop_v11 allowLength) inps' t = Inr t'"
  then show "tempoInRange t'"
    using run_invariant_inputs [of tempoInRange t "loop_v11 allowLength" inps' t'
        "\<lambda>inp. \<not> clkPin inp"]
      loop_v11_tempo by blast
next
  assume "tempoInRange u"
  then show "tempoInRange (tempoEdit np u)" by (rule tempoEdit_inRange)
next
  assume "delayTime lo = 10" "np1 < oldPosition lo - 3"
  then show "delayTime (tempoEdit np1 lo) = 10" by (simp add: tempoEdit_def)
next
  assume "delayTime hi = 500" "np2 > oldPosition hi + 3"
  then show "delayTime (tempoEdit np2 hi) = 500"
    by (simp add: tempoEdit_def MAX_DELAY_TIME_def)
next
  show "delayTime (snd (clock low inp u)) =
        (if clkPin inp \<and> extClkV inp > 512 \<and> prevExtClk u < low
         then ucast (thisTime inp - prevTime u) else delayTime u)"
    by (rule clock_delayTime)
qed

theorem tempo_bounds_witness:
  "tempoInRange factoryState_v10 \<and> list_all (\<lambda>inp. \<not> clkPin inp) lengthMenuRun
   \<and> \<not> isl (run loop_v10 lengthMenuRun factoryState_v10)
   \<and> tempoInRange (projr (run loop_v10 lengthMenuRun factoryState_v10))
   \<and> tempoInRange factoryState_v11
   \<and> \<not> isl (run (loop_v11 False) lengthMenuRun factoryState_v11)
   \<and> tempoInRange (projr (run (loop_v11 False) lengthMenuRun factoryState_v11))
   \<and> tempoInRange (tempoEdit 4 factoryState_v11)
   \<and> delayTime (factoryState_v11\<lparr>delayTime := 10\<rparr>) = 10
   \<and> - 4 < oldPosition (factoryState_v11\<lparr>delayTime := 10\<rparr>) - 3
   \<and> delayTime (tempoEdit (- 4) (factoryState_v11\<lparr>delayTime := 10\<rparr>)) = 10
   \<and> delayTime (factoryState_v11\<lparr>delayTime := 500\<rparr>) = 500
   \<and> 4 > oldPosition (factoryState_v11\<lparr>delayTime := 500\<rparr>) + 3
   \<and> delayTime (tempoEdit 4 (factoryState_v11\<lparr>delayTime := 500\<rparr>)) = 500"
proof -
  have a: "tempoInRange factoryState_v10" "tempoInRange factoryState_v11"
    by (simp_all add: tempoInRange_def factoryState_v10_def factoryState_v11_def)
  have b: "\<forall>inp \<in> set lengthMenuRun. \<not> clkPin inp"
    by (simp add: lengthMenuRun_def idle_def)
  have b': "list_all (\<lambda>inp. \<not> clkPin inp) lengthMenuRun"
    using b by (simp only: list_all_iff)
  have c: "\<not> isl (run loop_v10 lengthMenuRun factoryState_v10)" by code_simp
  have d: "\<not> isl (run (loop_v11 False) lengthMenuRun factoryState_v11)" by code_simp
  have e: "oldPosition (factoryState_v11\<lparr>delayTime := 10\<rparr>) = 0"
    "oldPosition (factoryState_v11\<lparr>delayTime := 500\<rparr>) = 0"
    by (simp_all add: factoryState_v11_def)
  from tempo_bounds [where s = factoryState_v10 and inps = lengthMenuRun
      and s' = "projr (run loop_v10 lengthMenuRun factoryState_v10)"
      and t = factoryState_v11 and allowLength = False and inps' = lengthMenuRun
      and t' = "projr (run (loop_v11 False) lengthMenuRun factoryState_v11)"
      and u = factoryState_v11 and np = 4
      and lo = "factoryState_v11\<lparr>delayTime := 10\<rparr>" and ?np1.0 = "- 4"
      and hi = "factoryState_v11\<lparr>delayTime := 500\<rparr>" and ?np2.0 = 4]
  show ?thesis
    using a b b' c d e Inr_projr [OF c] Inr_projr [OF d] by simp
qed

section \<open>Clearing and recalling a memory cell\<close>

lemma update4:
  assumes "length xs = 4"
  shows "xs[0 := a, Suc 0 := b, 2 := c, 3 := d] = [a, b, c, d]"
proof -
  from assms obtain x0 x1 x2 x3 where "xs = [x0, x1, x2, x3]"
    by (auto simp add: numeral_eq_Suc length_Suc_conv)
  then show ?thesis by simp
qed

lemma createEmptyPatch_v10_wf:
  assumes "wfPatch P"
  shows "createEmptyPatch_v10 P
           = \<lparr>pulses = [0, 0, 0, 0], patternLength = [0, 0, 0, 0], channelPattern = [0, 0, 0, 0]\<rparr>"
  using assms
  by (cases P) (simp add: createEmptyPatch_v10_def fold4 wfPatch_def update4)

lemma createEmptyPatch_v11_wf:
  assumes "wfPatch P"
  shows "createEmptyPatch_v11 P
           = \<lparr>pulses = [0, 0, 0, 0], patternLength = [16, 16, 16, 16],
              channelPattern = [0, 0, 0, 0],
              muteA = False, muteB = False, muteC = False, muteD = False\<rparr>"
  using assms
  by (cases P) (simp add: createEmptyPatch_v11_def fold4 wfPatch_def update4
      DEFAULT_PATTERN_LENGTH_def)

lemma copyPatch_v10_wf:
  assumes "wfPatch dst"
  shows "copyPatch_v10 \<lparr>pulses = [a0, a1, a2, a3], patternLength = [b0, b1, b2, b3],
                         channelPattern = [c0, c1, c2, c3]\<rparr> dst
           = \<lparr>pulses = [a0, a1, a2, a3], patternLength = [b0, b1, b2, b3],
              channelPattern = [c0, c1, c2, c3]\<rparr>"
  using assms
  by (cases dst) (simp add: copyPatch_v10_def fold4 wfPatch_def update4)

lemma clear_bit:
  fixes m :: uint
  assumes "k < 16"
  shows "\<not> bit (m AND NOT (push_bit k 1)) k" "(m AND NOT (push_bit k 1)) AND push_bit k 1 = 0"
proof -
  show "\<not> bit (m AND NOT (push_bit k 1)) k"
    using assms by (simp add: bit_simps)
  show "(m AND NOT (push_bit k 1)) AND push_bit k 1 = 0"
    by (rule bit_eqI) (auto simp add: bit_simps)
qed

lemma shiftCount_cell:
  "0 \<le> k \<Longrightarrow> k \<le> 15 \<Longrightarrow> shiftCount k = Inr (nat k)"
  by (simp add: shiftCount_def)

text \<open>
  C9 (as the specification states it): after clearing a cell, recalling it yields a
  patch with all pattern lengths 16. Version 1.0, from the factory state: enter program
  mode, clear cell 0 and recall it; the live patch then has pattern lengths 0.
\<close>

theorem clear_recall_v10_counterexample:
  "map_sum id currentPatch (run loop_v10 clearAndRecallCell0 factoryState_v10)
     = Inr \<lparr>pulses = [0, 0, 0, 0], patternLength = [0, 0, 0, 0], channelPattern = [0, 0, 0, 0]\<rparr>
   \<and> map_sum id currentPatch (clearThenRecall_v10 factoryState_v10)
     = Inr \<lparr>pulses = [0, 0, 0, 0], patternLength = [0, 0, 0, 0], channelPattern = [0, 0, 0, 0]\<rparr>"
  by code_simp

text \<open>
  C9 (amended). For every cell k from 0 to 15, clearing cell k clears bit k of
  \<^verbatim>\<open>memoryCellsInUse\<close>, and recalling cell k afterwards makes it the chosen cell and
  yields the empty patch as the live patch: no pulses, no pattern bits, and pattern
  lengths 16 (\<^verbatim>\<open>DEFAULT_PATTERN_LENGTH\<close>, mutes off) in version 1.1, pattern lengths 0
  in version 1.0.
\<close>

theorem clear_then_recall:
  "(0 \<le> candidatePatchNumber t \<longrightarrow> candidatePatchNumber t \<le> 15 \<longrightarrow> length (patches t) = 16
      \<longrightarrow> wfPatch (patches t ! nat (candidatePatchNumber t)) \<longrightarrow>
      map_sum id (\<lambda>t'. (bit (memoryCellsInUse t') (nat (candidatePatchNumber t)),
                          chosenPatchNumber t', livePatch_v11 t'))
        (clearThenRecall_v11 t)
      = Inr (False, candidatePatchNumber t,
             \<lparr>pulses = [0, 0, 0, 0], patternLength = [16, 16, 16, 16],
              channelPattern = [0, 0, 0, 0],
              muteA = False, muteB = False, muteC = False, muteD = False\<rparr>))
   \<and> (0 \<le> candidatePatchNumber s \<longrightarrow> candidatePatchNumber s \<le> 15 \<longrightarrow> length (patches s) = 16
      \<longrightarrow> wfPatch (patches s ! nat (candidatePatchNumber s)) \<longrightarrow> wfPatch (currentPatch s)
      \<longrightarrow> emptyPatch s = createEmptyPatch_v10 zeroPatch \<longrightarrow>
      map_sum id (\<lambda>s'. (bit (memoryCellsInUse s') (nat (candidatePatchNumber s)),
                          chosenPatchNumber s', currentPatch s'))
        (clearThenRecall_v10 s)
      = Inr (False, candidatePatchNumber s,
             \<lparr>pulses = [0, 0, 0, 0], patternLength = [0, 0, 0, 0],
              channelPattern = [0, 0, 0, 0]\<rparr>))"
proof (intro conjI impI)
  let ?k = "nat (candidatePatchNumber t)"
  assume k: "0 \<le> candidatePatchNumber t" "candidatePatchNumber t \<le> 15"
    and len: "length (patches t) = 16" and wf: "wfPatch (patches t ! ?k)"
  have k16: "?k < 16" using k by linarith
  have sc: "shiftCount (candidatePatchNumber t) = Inr ?k" using k by (rule shiftCount_cell)
  show "map_sum id (\<lambda>t'. (bit (memoryCellsInUse t') ?k, chosenPatchNumber t', livePatch_v11 t'))
        (clearThenRecall_v11 t)
      = Inr (False, candidatePatchNumber t,
             \<lparr>pulses = [0, 0, 0, 0], patternLength = [16, 16, 16, 16],
              channelPattern = [0, 0, 0, 0],
              muteA = False, muteB = False, muteC = False, muteD = False\<rparr>)"
    using sc k16 len clear_bit [OF k16, of "memoryCellsInUse t"] createEmptyPatch_v11_wf [OF wf]
    by (simp add: clearThenRecall_v11_def clear_v11_def recall_v11_def bindE_def Let_def
        livePatch_v11_def)
next
  let ?k = "nat (candidatePatchNumber s)"
  assume k: "0 \<le> candidatePatchNumber s" "candidatePatchNumber s \<le> 15"
    and len: "length (patches s) = 16" and wf: "wfPatch (patches s ! ?k)"
    and wfc: "wfPatch (currentPatch s)"
    and empty: "emptyPatch s = createEmptyPatch_v10 zeroPatch"
  have k16: "?k < 16" using k by linarith
  have sc: "shiftCount (candidatePatchNumber s) = Inr ?k" using k by (rule shiftCount_cell)
  have e: "emptyPatch s = \<lparr>pulses = [0, 0, 0, 0], patternLength = [0, 0, 0, 0],
                            channelPattern = [0, 0, 0, 0]\<rparr>"
    using empty createEmptyPatch_v10_wf [of zeroPatch] by (simp add: wfPatch_def zeroPatch_def)
  show "map_sum id (\<lambda>s'. (bit (memoryCellsInUse s') ?k, chosenPatchNumber s', currentPatch s'))
        (clearThenRecall_v10 s)
      = Inr (False, candidatePatchNumber s,
             \<lparr>pulses = [0, 0, 0, 0], patternLength = [0, 0, 0, 0],
              channelPattern = [0, 0, 0, 0]\<rparr>)"
    using sc k16 len clear_bit(1) [OF k16, of "memoryCellsInUse s"]
      copyPatch_v10_wf [OF wf, of 0 0 0 0 0 0 0 0 0 0 0 0]
      copyPatch_v10_wf [OF wfc, of 0 0 0 0 0 0 0 0 0 0 0 0]
    by (simp add: clearThenRecall_v10_def clear_v10_def recall_v10_def Let_def e)
qed

theorem clear_then_recall_witness:
  "0 \<le> candidatePatchNumber factoryState_v11 \<and> candidatePatchNumber factoryState_v11 \<le> 15
   \<and> length (patches factoryState_v11) = 16
   \<and> wfPatch (patches factoryState_v11 ! nat (candidatePatchNumber factoryState_v11))
   \<and> map_sum id (\<lambda>t'. (bit (memoryCellsInUse t') 0, chosenPatchNumber t', livePatch_v11 t'))
        (clearThenRecall_v11 factoryState_v11)
      = Inr (False, 0,
             \<lparr>pulses = [0, 0, 0, 0], patternLength = [16, 16, 16, 16],
              channelPattern = [0, 0, 0, 0],
              muteA = False, muteB = False, muteC = False, muteD = False\<rparr>)
   \<and> 0 \<le> candidatePatchNumber factoryState_v10 \<and> candidatePatchNumber factoryState_v10 \<le> 15
   \<and> length (patches factoryState_v10) = 16
   \<and> wfPatch (patches factoryState_v10 ! nat (candidatePatchNumber factoryState_v10))
   \<and> wfPatch (currentPatch factoryState_v10)
   \<and> emptyPatch factoryState_v10 = createEmptyPatch_v10 zeroPatch
   \<and> map_sum id (\<lambda>s'. (bit (memoryCellsInUse s') 0, chosenPatchNumber s', currentPatch s'))
        (clearThenRecall_v10 factoryState_v10)
      = Inr (False, 0,
             \<lparr>pulses = [0, 0, 0, 0], patternLength = [0, 0, 0, 0],
              channelPattern = [0, 0, 0, 0]\<rparr>)"
proof -
  have a: "candidatePatchNumber factoryState_v11 = 0" "length (patches factoryState_v11) = 16"
    "wfPatch (patches factoryState_v11 ! nat (candidatePatchNumber factoryState_v11))"
    by (simp_all add: factoryState_v11_def factoryPatch_v11_def wfPatch_def)
  have b: "candidatePatchNumber factoryState_v10 = 0" "length (patches factoryState_v10) = 16"
    "wfPatch (patches factoryState_v10 ! nat (candidatePatchNumber factoryState_v10))"
    "emptyPatch factoryState_v10 = createEmptyPatch_v10 zeroPatch"
    by (simp_all add: factoryState_v10_def factoryPatch_v10_def wfPatch_def)
  have c: "wfPatch (currentPatch factoryState_v10)"
    by (simp add: factoryState_v10_def factoryPatch_v10_def wfPatch_def copyPatch_v10_def
        zeroPatch_def fold4)
  from clear_then_recall [where t = factoryState_v11 and s = factoryState_v10]
  show ?thesis using a b c by simp
qed

end
